theory Spec2Isabelle
  imports Main
begin

section \<open>The live-log pipeline of the dashboard front end\<close>

text \<open>
  The development embeds the log pipeline of \<^verbatim>\<open>frontend/src/main.js\<close> (lines 73-163; the
  file holds the same text a second time at lines 1241-1331): the push channel
  \<^verbatim>\<open>initWebSocket\<close> with its four handlers, the fallback poll registered with
  \<^verbatim>\<open>setInterval\<close>, the autoscroll toggle and \<^verbatim>\<open>addLogEntry\<close>.

  The module's variables \<^verbatim>\<open>ws\<close>, \<^verbatim>\<open>displayedLogIds\<close> and \<^verbatim>\<open>autoscrollEnabled\<close>, the
  \<^verbatim>\<open>#logs\<close> element and what the host keeps for the page (console, timers, fetches in
  flight) are the fields of one record that every handler takes and returns.
\<close>

subsection \<open>Log events and the derived key\<close>

text \<open>
  A log event as both endpoints deliver it. The timestamp is an integral number of
  seconds; a character of a string stands for one UTF-16 code unit.
\<close>

record log_event =
  timestamp :: int
  level :: string
  message :: string

definition digitChar :: "nat \<Rightarrow> char" where
  "digitChar d = ''0123456789'' ! d"

text \<open>The decimal digits of a natural number, most significant first.\<close>

fun digits :: "nat \<Rightarrow> string" where
  "digits n = (if n < 10 then [digitChar n] else digits (n div 10) @ [digitChar (n mod 10)])"

declare digits.simps [simp del]

text \<open>
  What a template literal makes of an integral number (below \<open>10\<^sup>2\<^sup>1\<close> in magnitude,
  where JavaScript prints all digits).
\<close>

definition numberToString :: "int \<Rightarrow> string" where
  "numberToString i = (if i < 0 then ''-'' @ digits (nat (- i)) else digits (nat i))"

text \<open>
  \<^verbatim>\<open>String.prototype.substring(start, end)\<close>: the arguments are swapped when
  \<open>start > end\<close> and clamped to the length of the string.
\<close>

definition substring :: "string \<Rightarrow> nat \<Rightarrow> nat \<Rightarrow> string" where
  "substring str a b = take (max a b - min a b) (drop (min a b) str)"

text \<open>
  Line 145:
  \<^verbatim>\<open>const logId = `${log.timestamp}-${log.level}-${log.message.substring(0, 50)}`;\<close>
\<close>

definition logId :: "log_event \<Rightarrow> string" where
  "logId log = numberToString (timestamp log) @ ''-'' @ level log @ ''-'' @ substring (message log) 0 50"

text \<open>
  What \<^verbatim>\<open>JSON.parse\<close> makes of a frame is not checked to be a log event. A parsed frame
  is taken with the three properties the code reads, each of them missing (\<open>None\<close>: the
  read gives \<^verbatim>\<open>undefined\<close>) or of the type the endpoint documents.
\<close>

record raw_log =
  rawTimestamp :: "int option"
  rawLevel :: "string option"
  rawMessage :: "string option"

definition rawOf :: "log_event \<Rightarrow> raw_log" where
  "rawOf log = \<lparr>rawTimestamp = Some (timestamp log), rawLevel = Some (level log),
                rawMessage = Some (message log)\<rparr>"

text \<open>A property in a template literal: \<^verbatim>\<open>undefined\<close> is printed as the word.\<close>

definition templateNumber :: "int option \<Rightarrow> string" where
  "templateNumber v = (case v of None \<Rightarrow> ''undefined'' | Some i \<Rightarrow> numberToString i)"

definition templateString :: "string option \<Rightarrow> string" where
  "templateString v = (case v of None \<Rightarrow> ''undefined'' | Some str \<Rightarrow> str)"

subsection \<open>The log container\<close>

text \<open>
  An entry is the \<^verbatim>\<open>div\<close> of lines 150-152 with the two properties the code sets. The
  container \<^verbatim>\<open>#logs\<close> has its child entries (oldest first), the scroll offset and the height
  of its box in pixels, and the layout the browser gives it: the scroll height as a
  function of the children, so that \<^verbatim>\<open>scrollHeight\<close> read after \<^verbatim>\<open>appendChild\<close> is that of
  the longer list. Only the code's own assignments change \<open>scrollTop\<close> here.
\<close>

record dom_entry =
  className :: string
  innerHTML :: string

record element =
  children :: "dom_entry list"
  scrollTop :: int
  clientHeight :: int
  layoutHeight :: "dom_entry list \<Rightarrow> int"

definition scrollHeight :: "element \<Rightarrow> int" where
  "scrollHeight el = layoutHeight el (children el)"

subsection \<open>The page\<close>

datatype ready_state = CONNECTING | OPEN | CLOSING | CLOSED

record websocket =
  url :: string
  readyState :: ready_state

datatype js_error = SyntaxError | TypeError | SecurityError

datatype console_line =
  ConsoleLog "string list"
  | ConsoleWarn "string list"
  | ConsoleError string js_error
  | ConsoleErrorText "string list"

datatype callback = InitWebSocket | FallbackPoll

text \<open>
  The state of one page session. \<open>logsEl\<close> is what \<^verbatim>\<open>document.getElementById('logs')\<close>
  returns (\<open>None\<close> for \<^verbatim>\<open>null\<close>). \<open>console\<close> holds the lines the code writes with
  \<^verbatim>\<open>console.log/warn/error\<close>; \<open>uncaught\<close> holds the exceptions that left a handler, which the
  host reports by itself in the developer console. \<open>timeouts\<close> and \<open>intervals\<close> are the timers registered with
  \<^verbatim>\<open>setTimeout\<close> and \<^verbatim>\<open>setInterval\<close>, each with the time in milliseconds it is next due at;
  \<open>inflight\<close> lists the fetches whose promise has not settled. The last four fields are
  what the host supplies: the location of the page, the locale's rendering of a time
  given in milliseconds, and \<^verbatim>\<open>JSON.parse\<close> on a frame (\<open>None\<close> when it throws).
\<close>

record page =
  logsEl :: "element option"
  ws :: "websocket option"
  displayedLogIds :: "string set"
  autoscrollEnabled :: bool
  console :: "console_line list"
  uncaught :: "js_error list"
  clock :: nat
  timeouts :: "(nat \<times> callback) list"
  intervals :: "(nat \<times> nat \<times> callback) list"
  inflight :: "string list"
  locationProtocol :: string
  locationHost :: string
  toLocaleTimeString :: "int \<Rightarrow> string"
  jsonParse :: "string \<Rightarrow> raw_log option"

definition displayBuffer :: "page \<Rightarrow> dom_entry list" where
  "displayBuffer s = (case logsEl s of None \<Rightarrow> [] | Some el \<Rightarrow> children el)"

subsection \<open>addLogEntry\<close>

text \<open>Line 141: the viewport is within 100 pixels of the bottom.\<close>

definition isAtBottom :: "element \<Rightarrow> bool" where
  "isAtBottom el = (scrollHeight el - scrollTop el \<le> clientHeight el + 100)"

text \<open>
  What the browser keeps true of a scroll container whose content is its children: the
  offset is not negative, and without children nothing lies below the box.
\<close>

definition laidOut :: "element \<Rightarrow> bool" where
  "laidOut el = (0 \<le> scrollTop el \<and> layoutHeight el [] \<le> clientHeight el)"

text \<open>Lines 149-152: the rendered entry.\<close>

definition createEntry :: "(int \<Rightarrow> string) \<Rightarrow> log_event \<Rightarrow> dom_entry" where
  \<open>createEntry fmt log =
     \<lparr>className = ''log-entry log-'' @ level log,
      innerHTML = ''<span class="log-time">'' @ fmt (timestamp log * 1000) @ ''</span> [''
        @ level log @ ''] '' @ message log\<rparr>\<close>

text \<open>
  Line 145 on a parsed frame: \<^verbatim>\<open>log.message.substring\<close> throws a \<^verbatim>\<open>TypeError\<close> when
  \<^verbatim>\<open>log.message\<close> is \<^verbatim>\<open>undefined\<close>.
\<close>

definition rawLogId :: "raw_log \<Rightarrow> js_error + string" where
  "rawLogId log =
     (case rawMessage log of
        None \<Rightarrow> Inl TypeError
      | Some msg \<Rightarrow>
          Inr (templateNumber (rawTimestamp log) @ ''-'' @ templateString (rawLevel log) @ ''-''
               @ substring msg 0 50))"

text \<open>
  Lines 149-152 on a parsed frame: \<^verbatim>\<open>new Date(undefined * 1000)\<close> is an invalid date, whose
  \<^verbatim>\<open>toLocaleTimeString()\<close> is \<^verbatim>\<open>Invalid Date\<close>.
\<close>

definition rawEntry :: "(int \<Rightarrow> string) \<Rightarrow> raw_log \<Rightarrow> dom_entry" where
  \<open>rawEntry fmt log =
     \<lparr>className = ''log-entry log-'' @ templateString (rawLevel log),
      innerHTML = ''<span class="log-time">''
        @ (case rawTimestamp log of None \<Rightarrow> ''Invalid Date'' | Some t \<Rightarrow> fmt (t * 1000))
        @ ''</span> ['' @ templateString (rawLevel log) @ ''] '' @ templateString (rawMessage log)\<rparr>\<close>

text \<open>
  Lines 160-162: \<^verbatim>\<open>while (logsEl.children.length > 500) logsEl.removeChild(logsEl.firstChild)\<close>.
\<close>

function evict :: "dom_entry list \<Rightarrow> dom_entry list" where
  "evict cs = (if length cs > 500 then evict (tl cs) else cs)"
  by pat_completeness auto
termination
  by (relation "measure length") auto

declare evict.simps [simp del]

text \<open>Line 156: the condition under which line 157 assigns \<open>scrollTop\<close>.\<close>

definition shouldScroll :: "bool \<Rightarrow> bool \<Rightarrow> bool \<Rightarrow> bool" where
  "shouldScroll enabled atBottom isEmpty = (enabled \<and> (atBottom \<or> isEmpty))"

definition scrollToBottom :: "element \<Rightarrow> element" where
  "scrollToBottom el = el\<lparr>scrollTop := scrollHeight el\<rparr>"

text \<open>Lines 135-163.\<close>

definition addLogEntry :: "log_event \<Rightarrow> page \<Rightarrow> page" where
  "addLogEntry log s =
     (case logsEl s of
        None \<Rightarrow> s
      | Some el \<Rightarrow>
          (let atBottom = isAtBottom el;
               isEmpty = (length (children el) = 0);
               key = logId log
           in if key \<in> displayedLogIds s then s
              else
                (let entry = createEntry (toLocaleTimeString s) log;
                     el1 = el\<lparr>children := children el @ [entry]\<rparr>;
                     el2 = (if shouldScroll (autoscrollEnabled s) atBottom isEmpty
                            then scrollToBottom el1 else el1);
                     el3 = el2\<lparr>children := evict (children el2)\<rparr>
                 in s\<lparr>displayedLogIds := insert key (displayedLogIds s),
                        logsEl := Some el3\<rparr>)))"

text \<open>
  Lines 135-163 on a parsed frame: the same steps, with the exception of line 145 as the
  result \<open>Inl\<close>. Nothing has been assigned when it is thrown.
\<close>

definition addLogEntryRaw :: "raw_log \<Rightarrow> page \<Rightarrow> js_error + page" where
  "addLogEntryRaw log s =
     (case logsEl s of
        None \<Rightarrow> Inr s
      | Some el \<Rightarrow>
          (let atBottom = isAtBottom el;
               isEmpty = (length (children el) = 0)
           in case rawLogId log of
                Inl err \<Rightarrow> Inl err
              | Inr key \<Rightarrow>
                  if key \<in> displayedLogIds s then Inr s
                  else
                    (let entry = rawEntry (toLocaleTimeString s) log;
                         el1 = el\<lparr>children := children el @ [entry]\<rparr>;
                         el2 = (if shouldScroll (autoscrollEnabled s) atBottom isEmpty
                                then scrollToBottom el1 else el1);
                         el3 = el2\<lparr>children := evict (children el2)\<rparr>
                     in Inr (s\<lparr>displayedLogIds := insert key (displayedLogIds s),
                                 logsEl := Some el3\<rparr>))))"

text \<open>A batch of events forwarded one by one, in order (\<^verbatim>\<open>forEach\<close> of line 110).\<close>

definition addLogEntries :: "log_event list \<Rightarrow> page \<Rightarrow> page" where
  "addLogEntries logs s = fold addLogEntry logs s"

subsection \<open>The autoscroll toggle\<close>

text \<open>Lines 125-131: the \<^verbatim>\<open>change\<close> listener of the toggle, with \<^verbatim>\<open>e.target.checked\<close>.\<close>

definition toggleChanged :: "bool \<Rightarrow> page \<Rightarrow> page" where
  "toggleChanged checked s =
     (let s1 = s\<lparr>autoscrollEnabled := checked\<rparr>
      in if checked
         then (case logsEl s1 of
                 None \<Rightarrow> s1
               | Some el \<Rightarrow> s1\<lparr>logsEl := Some (scrollToBottom el)\<rparr>)
         else s1)"

subsection \<open>The push channel\<close>

definition consoleWrite :: "console_line \<Rightarrow> page \<Rightarrow> page" where
  "consoleWrite ln s = s\<lparr>console := console s @ [ln]\<rparr>"

text \<open>\<^verbatim>\<open>setTimeout(cb, delay)\<close>: the callback is due \<open>delay\<close> milliseconds from now.\<close>

definition setTimeout :: "callback \<Rightarrow> nat \<Rightarrow> page \<Rightarrow> page" where
  "setTimeout cb delay s = s\<lparr>timeouts := timeouts s @ [(clock s + delay, cb)]\<rparr>"

text \<open>\<^verbatim>\<open>setInterval(cb, period)\<close>: first due one period from now.\<close>

definition setInterval :: "callback \<Rightarrow> nat \<Rightarrow> page \<Rightarrow> page" where
  "setInterval cb period s = s\<lparr>intervals := intervals s @ [(clock s + period, period, cb)]\<rparr>"

text \<open>
  Lines 77-100. \<open>thrown\<close> is the exception of \<^verbatim>\<open>new WebSocket(wsUrl)\<close>, if it throws: then
  line 83 assigns nothing, no handler is attached and the \<^verbatim>\<open>catch\<close> of line 97 writes the
  error.
\<close>

definition initWebSocket :: "js_error option \<Rightarrow> page \<Rightarrow> page" where
  "initWebSocket thrown s =
     (let protocol = (if locationProtocol s = ''https:'' then ''wss:'' else ''ws:'');
          wsUrl = protocol @ ''//'' @ locationHost s @ ''/ws/logs'';
          s1 = consoleWrite (ConsoleLog [''[Dashboard] Connecting to WebSocket: '' @ wsUrl]) s
      in case thrown of
           None \<Rightarrow> s1\<lparr>ws := Some \<lparr>url = wsUrl, readyState = CONNECTING\<rparr>\<rparr>
         | Some e \<Rightarrow> consoleWrite (ConsoleError ''[Dashboard] WS Init Error'' e) s1)"

text \<open>Lines 84-87.\<close>

definition ws_onopen :: "page \<Rightarrow> page" where
  "ws_onopen s = consoleWrite (ConsoleLog [''[Dashboard] WebSocket connected'']) s"

text \<open>
  Lines 88-91. Nothing catches what \<^verbatim>\<open>JSON.parse\<close> or \<^verbatim>\<open>addLogEntry\<close> throws (the \<^verbatim>\<open>try\<close>
  of line 78 has ended when a handler runs), so the handler ends in the exception,
  \<open>Inl\<close>, or returns the page after \<^verbatim>\<open>addLogEntry\<close>.
\<close>

definition ws_onmessage :: "string \<Rightarrow> page \<Rightarrow> js_error + page" where
  "ws_onmessage frame s =
     (case jsonParse s frame of
        None \<Rightarrow> Inl SyntaxError
      | Some log \<Rightarrow> addLogEntryRaw log s)"

text \<open>Lines 92-95, with \<^verbatim>\<open>e.reason\<close>.\<close>

definition ws_onclose :: "string \<Rightarrow> page \<Rightarrow> page" where
  "ws_onclose reason s =
     setTimeout InitWebSocket 3000
       (consoleWrite (ConsoleWarn [''[Dashboard] WebSocket closed, retrying in 3s...'', reason]) s)"

text \<open>Line 96.\<close>

definition ws_onerror :: "string \<Rightarrow> page \<Rightarrow> page" where
  "ws_onerror err s = consoleWrite (ConsoleErrorText [''[Dashboard] WebSocket error:'', err]) s"

subsection \<open>The fallback poll\<close>

text \<open>Line 104: \<^verbatim>\<open>!ws || ws.readyState !== WebSocket.OPEN\<close>.\<close>

definition pollGuard :: "page \<Rightarrow> bool" where
  "pollGuard s = (case ws s of None \<Rightarrow> True | Some w \<Rightarrow> readyState w \<noteq> OPEN)"

text \<open>
  Lines 103-106, up to the \<^verbatim>\<open>await\<close>: under the guard the tick issues one fetch of
  \<^verbatim>\<open>/api/logs\<close> and suspends; otherwise it does nothing.
\<close>

definition pollTick :: "page \<Rightarrow> page" where
  "pollTick s = (if pollGuard s then s\<lparr>inflight := inflight s @ [''/api/logs'']\<rparr> else s)"

text \<open>
  How the fetch settles: the promise rejects (a network error), or there is a response
  with its \<^verbatim>\<open>ok\<close> flag and a body, on which \<^verbatim>\<open>res.json()\<close> rejects or gives \<^verbatim>\<open>data\<close>, whose
  \<^verbatim>\<open>logs\<close> may be missing and otherwise is a list of log events.
\<close>

datatype fetch_body = InvalidJson | Payload "log_event list option"

datatype fetch_outcome = Rejected | Response bool fetch_body

text \<open>
  Lines 106-115, from the \<^verbatim>\<open>await\<close> on. \<^verbatim>\<open>fetch\<close> rejects with a \<^verbatim>\<open>TypeError\<close> and
  \<^verbatim>\<open>res.json()\<close> with a \<^verbatim>\<open>SyntaxError\<close>; both end in the \<^verbatim>\<open>catch\<close> of line 113.
\<close>

definition pollSettled :: "fetch_outcome \<Rightarrow> page \<Rightarrow> page" where
  "pollSettled outcome s =
     (case outcome of
        Rejected \<Rightarrow> consoleWrite (ConsoleError ''[Dashboard] Polling failed'' TypeError) s
      | Response ok body \<Rightarrow>
          if ok
          then (case body of
                  InvalidJson \<Rightarrow> consoleWrite (ConsoleError ''[Dashboard] Polling failed'' SyntaxError) s
                | Payload None \<Rightarrow> s
                | Payload (Some logs) \<Rightarrow> addLogEntries logs s)
          else s)"

subsection \<open>The event loop\<close>

text \<open>
  What the host can do to the page: let time pass, run a timer that is due, deliver an
  event of the socket that \<^verbatim>\<open>ws\<close> holds, settle the oldest fetch in flight, or report a
  change of the toggle. A timeout that runs \<^verbatim>\<open>initWebSocket\<close> carries what the constructor
  throws.
\<close>

datatype event =
  Elapse nat
  | TimeoutDue nat "js_error option"
  | IntervalDue nat
  | WsOpened
  | WsFrame string
  | WsErrored string
  | WsClosed string
  | FetchSettled fetch_outcome
  | ToggleChanged bool

definition runCallback :: "callback \<Rightarrow> js_error option \<Rightarrow> page \<Rightarrow> page" where
  "runCallback cb thrown s = (case cb of InitWebSocket \<Rightarrow> initWebSocket thrown s | FallbackPoll \<Rightarrow> pollTick s)"

definition setReadyState :: "ready_state \<Rightarrow> page \<Rightarrow> page" where
  "setReadyState r s = s\<lparr>ws := map_option (\<lambda>w. w\<lparr>readyState := r\<rparr>) (ws s)\<rparr>"

definition wsState :: "page \<Rightarrow> ready_state option" where
  "wsState s = map_option readyState (ws s)"

text \<open>
  One turn of the loop; \<open>None\<close> when the host cannot deliver the event in this state (a
  timer before its time, a frame on a socket that is not open). A timer runs no sooner
  than it is due; an interval is due again one period later. The host sets the ready
  state before it calls \<^verbatim>\<open>onopen\<close> or \<^verbatim>\<open>onclose\<close>. An exception that leaves
  \<^verbatim>\<open>onmessage\<close> is reported by the host and the loop goes on.
\<close>

definition dispatch :: "event \<Rightarrow> page \<Rightarrow> page option" where
  "dispatch ev s =
     (case ev of
        Elapse d \<Rightarrow> Some (s\<lparr>clock := clock s + d\<rparr>)
      | TimeoutDue i thrown \<Rightarrow>
          if i < length (timeouts s) \<and> fst (timeouts s ! i) \<le> clock s
          then Some (runCallback (snd (timeouts s ! i)) thrown
                       (s\<lparr>timeouts := take i (timeouts s) @ drop (Suc i) (timeouts s)\<rparr>))
          else None
      | IntervalDue i \<Rightarrow>
          if i < length (intervals s) \<and> fst (intervals s ! i) \<le> clock s
          then (case intervals s ! i of
                  (at, period, cb) \<Rightarrow>
                    Some (runCallback cb None (s\<lparr>intervals := (intervals s)[i := (at + period, period, cb)]\<rparr>)))
          else None
      | WsOpened \<Rightarrow>
          if wsState s = Some CONNECTING then Some (ws_onopen (setReadyState OPEN s)) else None
      | WsFrame frame \<Rightarrow>
          if wsState s = Some OPEN
          then (case ws_onmessage frame s of
                  Inl e \<Rightarrow> Some (s\<lparr>uncaught := uncaught s @ [e]\<rparr>)
                | Inr s' \<Rightarrow> Some s')
          else None
      | WsErrored err \<Rightarrow>
          if wsState s = Some CONNECTING \<or> wsState s = Some OPEN then Some (ws_onerror err s) else None
      | WsClosed reason \<Rightarrow>
          if wsState s = None \<or> wsState s = Some CLOSED then None
          else Some (ws_onclose reason (setReadyState CLOSED s))
      | FetchSettled outcome \<Rightarrow>
          (case inflight s of
             [] \<Rightarrow> None
           | _ # rest \<Rightarrow> Some (pollSettled outcome (s\<lparr>inflight := rest\<rparr>)))
      | ToggleChanged checked \<Rightarrow> Some (toggleChanged checked s))"

text \<open>A run of the loop: the events in order; \<open>None\<close> as soon as one cannot be delivered.\<close>

fun run :: "event list \<Rightarrow> page \<Rightarrow> page option" where
  "run [] s = Some s"
| "run (ev # evs) s = (case dispatch ev s of None \<Rightarrow> None | Some s' \<Rightarrow> run evs s')"

text \<open>
  The page when the module has been evaluated (lines 74, 75, 103-117 and 119) and
  \<^verbatim>\<open>DOMContentLoaded\<close> has called \<^verbatim>\<open>initWebSocket\<close> (line 52), for a document with the
  container \<open>container\<close> and the environment \<open>protocol\<close>, \<open>host\<close>, \<open>fmt\<close>, \<open>parse\<close>.
\<close>

definition moduleLoaded ::
  "element option \<Rightarrow> string \<Rightarrow> string \<Rightarrow> (int \<Rightarrow> string) \<Rightarrow> (string \<Rightarrow> raw_log option) \<Rightarrow> page" where
  "moduleLoaded container protocol host fmt parse =
     setInterval FallbackPoll 10000
       \<lparr>logsEl = container, ws = None, displayedLogIds = {}, autoscrollEnabled = True,
        console = [], uncaught = [], clock = 0, timeouts = [], intervals = [],
        inflight = [], locationProtocol = protocol, locationHost = host,
        toLocaleTimeString = fmt, jsonParse = parse\<rparr>"

definition pageLoaded ::
  "element option \<Rightarrow> string \<Rightarrow> string \<Rightarrow> (int \<Rightarrow> string) \<Rightarrow> (string \<Rightarrow> raw_log option) \<Rightarrow> page" where
  "pageLoaded container protocol host fmt parse =
     initWebSocket None (moduleLoaded container protocol host fmt parse)"

subsection \<open>Scenarios\<close>

text \<open>
  A page to run scenarios on: an empty container 300 pixels high in which every entry
  takes 20 pixels (the scroll height is never below the height of the box), times
  rendered as hours, minutes and seconds of the day, and a \<^verbatim>\<open>JSON.parse\<close> that knows three
  frames: event A, an object with a message only, and an object without a message.
\<close>

definition plainContainer :: element where
  "plainContainer =
     \<lparr>children = [], scrollTop = 0, clientHeight = 300,
      layoutHeight = (\<lambda>cs. max 300 (20 * int (length cs)))\<rparr>"

definition twoDigits :: "nat \<Rightarrow> string" where
  "twoDigits n = (if n < 10 then ''0'' @ digits n else digits n)"

definition dayTime :: "int \<Rightarrow> string" where
  "dayTime ms =
     (let sec = nat ((ms div 1000) mod 86400)
      in twoDigits (sec div 3600) @ '':'' @ twoDigits (sec div 60 mod 60) @ '':'' @ twoDigits (sec mod 60))"

definition eventA :: log_event where
  "eventA = \<lparr>timestamp = 1000, level = ''info'', message = ''A''\<rparr>"

definition frameA :: string where
  \<open>frameA = ''{"timestamp":1000,"level":"info","message":"A"}''\<close>

definition frameBare :: string where
  \<open>frameBare = ''{"message":"x"}''\<close>

definition frameMute :: string where
  \<open>frameMute = ''{"timestamp":1000,"level":"info"}''\<close>

definition parseA :: "string \<Rightarrow> raw_log option" where
  "parseA frame =
     (if frame = frameA then Some (rawOf eventA)
      else if frame = frameBare
      then Some \<lparr>rawTimestamp = None, rawLevel = None, rawMessage = Some ''x''\<rparr>
      else if frame = frameMute
      then Some \<lparr>rawTimestamp = Some 1000, rawLevel = Some ''info'', rawMessage = None\<rparr>
      else None)"

definition freshPage :: page where
  "freshPage = pageLoaded (Some plainContainer) ''http:'' ''localhost:8080'' dayTime parseA"

text \<open>The \<open>k\<close>-th of a series of events with increasing timestamps and messages of their own.\<close>

definition numbered :: "nat \<Rightarrow> log_event" where
  "numbered k = \<lparr>timestamp = 1000 + int k, level = ''info'', message = ''event '' @ digits k\<rparr>"

text \<open>
  A page that already shows 30 entries (600 pixels of content in a box of 300) with the
  viewport at the offset \<open>offset\<close>.
\<close>

definition historyPage :: "int \<Rightarrow> page" where
  "historyPage offset =
     freshPage\<lparr>logsEl := Some (plainContainer\<lparr>children := map (createEntry dayTime \<circ> numbered) [0..<30],
                                                scrollTop := offset\<rparr>),
               displayedLogIds := logId ` numbered ` {0..<30}\<rparr>"

text \<open>Two reports that differ only after their 50th character.\<close>

definition timeoutReport :: log_event where
  "timeoutReport = \<lparr>timestamp = 1700000000, level = ''error'',
     message = ''Playback failed for track in guild 123456789012345678: timeout''\<rparr>"

definition forbiddenReport :: log_event where
  "forbiddenReport = \<lparr>timestamp = 1700000000, level = ''error'',
     message = ''Playback failed for track in guild 123456789012345678: forbidden''\<rparr>"

text \<open>The fresh page when its socket has opened.\<close>

definition openPage :: page where
  "openPage = ws_onopen (setReadyState OPEN freshPage)"

text \<open>
  The channel closes and the page reconnects three seconds later, \<open>n\<close> times over; the
  constructor returns a socket each time.
\<close>

fun retryCycles :: "nat \<Rightarrow> event list" where
  "retryCycles 0 = []"
| "retryCycles (Suc n) = [WsClosed ''lost'', Elapse 3000, TimeoutDue 0 None] @ retryCycles n"

section \<open>Properties\<close>

subsection \<open>The eviction loop\<close>

text \<open>The loop keeps the last 500 children.\<close>

lemma evict_drop: "evict cs = drop (length cs - 500) cs"
proof (induction cs rule: evict.induct)
  case (1 cs)
  show ?case
  proof (cases "length cs > 500")
    case True
    then have "evict cs = evict (tl cs)" by (subst evict.simps) simp
    also have "\<dots> = drop (length (tl cs) - 500) (tl cs)" using 1 True by simp
    also have "\<dots> = drop (length cs - 500) cs"
    proof (cases cs)
      case Nil
      with True show ?thesis by simp
    next
      case (Cons a list)
      with True have "length cs - 500 = Suc (length list - 500)" by simp
      with Cons show ?thesis by simp
    qed
    finally show ?thesis .
  next
    case False
    then show ?thesis by (subst evict.simps) simp
  qed
qed

lemma length_evict: "length (evict cs) = min 500 (length cs)"
  by (simp add: evict_drop)

lemma evict_evict_append: "evict (evict xs @ ys) = evict (xs @ ys)"
proof (cases "length xs \<le> 500")
  case True
  then show ?thesis by (simp add: evict_drop)
next
  case False
  then have k: "length xs - 500 \<le> length xs" and l: "length (drop (length xs - 500) xs) = 500"
    by simp_all
  have "evict (evict xs @ ys) = drop (length ys) (drop (length xs - 500) xs @ ys)"
    using l by (simp add: evict_drop)
  also have "\<dots> = drop (length ys) (drop (length xs - 500) (xs @ ys))"
    by simp
  also have "\<dots> = drop (length xs - 500 + length ys) (xs @ ys)"
    by (simp only: drop_drop add.commute)
  also have "\<dots> = evict (xs @ ys)"
    using False by (simp add: evict_drop)
  finally show ?thesis .
qed

subsection \<open>The derived key determines the timestamp\<close>

lemma lt10_cases: "d < (10::nat) \<Longrightarrow> d = 0 \<or> d = 1 \<or> d = 2 \<or> d = 3 \<or> d = 4 \<or> d = 5 \<or> d = 6 \<or> d = 7 \<or> d = 8 \<or> d = 9"
  by arith

lemma digitChar_code:
  assumes "d < 10"
  shows "(of_char (digitChar d) :: nat) = 48 + d"
  using lt10_cases[OF assms] by (elim disjE) (simp_all add: digitChar_def)

lemma digitChar_inj:
  assumes "d < 10" and "e < 10" and "digitChar d = digitChar e"
  shows "d = e"
proof -
  have "48 + d = (of_char (digitChar d) :: nat)"
    using digitChar_code[OF assms(1)] by (rule sym)
  also have "\<dots> = of_char (digitChar e)" by (simp only: assms(3))
  also have "\<dots> = 48 + e" by (rule digitChar_code[OF assms(2)])
  finally show ?thesis by simp
qed

lemma digitChar_not_minus:
  assumes "d < 10"
  shows "digitChar d \<noteq> CHR ''-''"
proof
  assume "digitChar d = CHR ''-''"
  then show False using digitChar_code[OF assms] by simp
qed

lemma digits_not_Nil: "digits n \<noteq> []"
  by (subst digits.simps) simp

lemma length_digits_one: "length (digits n) = 1 \<longleftrightarrow> n < 10"
  by (subst digits.simps) (simp add: digits_not_Nil)

lemma minus_notin_digits: "CHR ''-'' \<notin> set (digits n)"
proof (induction n rule: digits.induct)
  case (1 n)
  show ?case
  proof (cases "n < 10")
    case True
    then show ?thesis by (subst digits.simps) (simp add: digitChar_not_minus[symmetric] digitChar_not_minus)
  next
    case False
    have "n mod 10 < 10" by simp
    then have "digitChar (n mod 10) \<noteq> CHR ''-''" by (rule digitChar_not_minus)
    with 1 False show ?thesis by (subst digits.simps) auto
  qed
qed

lemma digits_inj: "digits m = digits n \<Longrightarrow> m = n"
proof (induction m arbitrary: n rule: digits.induct)
  case (1 m)
  show ?case
  proof (cases "m < 10")
    case True
    then have "length (digits m) = 1" using length_digits_one[of m] by simp
    then have n: "n < 10" using "1.prems" length_digits_one[of n] by simp
    have "[digitChar m] = digits m" using True by (subst digits.simps) simp
    also have "\<dots> = digits n" by (rule "1.prems")
    also have "\<dots> = [digitChar n]" using n by (subst digits.simps) simp
    finally have "digitChar m = digitChar n" by simp
    with True n show ?thesis by (rule digitChar_inj)
  next
    case False
    then have "length (digits m) \<noteq> 1" using length_digits_one[of m] by simp
    then have n: "\<not> n < 10" using "1.prems" length_digits_one[of n] by simp
    have "digits (m div 10) @ [digitChar (m mod 10)] = digits m"
      using False by (subst digits.simps[of m]) simp
    also have "\<dots> = digits n" by (rule "1.prems")
    also have "\<dots> = digits (n div 10) @ [digitChar (n mod 10)]"
      using n by (subst digits.simps) simp
    finally have a: "digits (m div 10) = digits (n div 10)"
      and b: "digitChar (m mod 10) = digitChar (n mod 10)"
      by simp_all
    from a have "m div 10 = n div 10" using False by (rule "1.IH"[rotated])
    moreover have "m mod 10 = n mod 10" using b by (intro digitChar_inj) simp_all
    moreover have "m = 10 * (m div 10) + m mod 10" and "n = 10 * (n div 10) + n mod 10"
      by simp_all
    ultimately show ?thesis by simp
  qed
qed


lemma sep_split:
  assumes "xs @ c # r = ys @ c # r'" and "c \<notin> set xs" and "c \<notin> set ys"
  shows "xs = ys"
proof -
  have tw: "takeWhile (\<lambda>x. x \<noteq> c) (zs @ c # t) = zs" if "c \<notin> set zs" for zs t
    using that by (induction zs) auto
  have "xs = takeWhile (\<lambda>x. x \<noteq> c) (xs @ c # r)"
    using assms(2) by (simp add: tw)
  also have "\<dots> = takeWhile (\<lambda>x. x \<noteq> c) (ys @ c # r')"
    by (simp only: assms(1))
  also have "\<dots> = ys"
    using assms(3) by (rule tw)
  finally show ?thesis .
qed

lemma hd_digits_not_minus: "hd (digits k) \<noteq> CHR ''-''"
  using minus_notin_digits[of k] digits_not_Nil[of k] by (cases "digits k") auto

lemma minus_digits_neq: "CHR ''-'' # u \<noteq> digits k @ v"
proof
  assume "CHR ''-'' # u = digits k @ v"
  then have "hd (digits k) = CHR ''-''"
    using digits_not_Nil[of k] by (cases "digits k") auto
  then show False using hd_digits_not_minus by simp
qed

lemma numberToString_split:
  assumes eq: "numberToString i @ CHR ''-'' # r = numberToString j @ CHR ''-'' # r'"
  shows "i = j"
proof (cases "i < 0")
  case i: True
  show ?thesis
  proof (cases "j < 0")
    case True
    with i eq have "digits (nat (- i)) @ CHR ''-'' # r = digits (nat (- j)) @ CHR ''-'' # r'"
      by (simp add: numberToString_def)
    then have "digits (nat (- i)) = digits (nat (- j))"
      by (rule sep_split) (rule minus_notin_digits)+
    then have "nat (- i) = nat (- j)" by (rule digits_inj)
    with i True show ?thesis by simp
  next
    case False
    with i eq have "CHR ''-'' # (digits (nat (- i)) @ CHR ''-'' # r) = digits (nat j) @ CHR ''-'' # r'"
      by (simp add: numberToString_def)
    then show ?thesis using minus_digits_neq by blast
  qed
next
  case i: False
  show ?thesis
  proof (cases "j < 0")
    case True
    with i eq have "CHR ''-'' # (digits (nat (- j)) @ CHR ''-'' # r') = digits (nat i) @ CHR ''-'' # r"
      by (simp add: numberToString_def)
    then show ?thesis using minus_digits_neq by blast
  next
    case False
    with i eq have "digits (nat i) @ CHR ''-'' # r = digits (nat j) @ CHR ''-'' # r'"
      by (simp add: numberToString_def)
    then have "digits (nat i) = digits (nat j)"
      by (rule sep_split) (rule minus_notin_digits)+
    then have "nat i = nat j" by (rule digits_inj)
    with i False show ?thesis by simp
  qed
qed

lemma logId_timestamp: "logId a = logId b \<Longrightarrow> timestamp a = timestamp b"
  unfolding logId_def by (rule numberToString_split) simp

lemma distinct_logId:
  "distinct (map timestamp logs) \<Longrightarrow> distinct (map logId logs)"
proof (induction logs)
  case Nil
  show ?case by simp
next
  case (Cons a logs)
  then have "timestamp a \<notin> timestamp ` set logs" by simp
  then have "logId a \<notin> logId ` set logs"
    by (auto dest: logId_timestamp)
  with Cons show ?case by simp
qed

lemma increasing_distinct_logId:
  "sorted_wrt (<) (map timestamp logs) \<Longrightarrow> distinct (map logId logs)"
  by (rule distinct_logId) (simp add: strict_sorted_iff)

subsection \<open>What addLogEntry changes\<close>

lemma addLogEntry_absent: "logsEl s = None \<Longrightarrow> addLogEntry log s = s"
  by (simp add: addLogEntry_def)

lemma addLogEntry_seen: "logId log \<in> displayedLogIds s \<Longrightarrow> addLogEntry log s = s"
  by (simp add: addLogEntry_def Let_def split: option.splits)

lemma addLogEntry_ids:
  "displayedLogIds (addLogEntry log s) =
     (if logsEl s = None then displayedLogIds s else insert (logId log) (displayedLogIds s))"
  by (auto simp add: addLogEntry_def Let_def split: option.splits)

lemma addLogEntry_logsEl_None: "logsEl (addLogEntry log s) = None \<longleftrightarrow> logsEl s = None"
  by (auto simp add: addLogEntry_def Let_def split: option.splits)

lemma addLogEntry_fmt: "toLocaleTimeString (addLogEntry log s) = toLocaleTimeString s"
  by (auto simp add: addLogEntry_def Let_def split: option.splits)

lemma addLogEntry_novel_buffer:
  "logsEl s = Some el \<Longrightarrow> logId log \<notin> displayedLogIds s \<Longrightarrow>
   displayBuffer (addLogEntry log s) = evict (children el @ [createEntry (toLocaleTimeString s) log])"
  by (simp add: addLogEntry_def displayBuffer_def Let_def scrollToBottom_def)

lemma addLogEntries_absent: "logsEl s = None \<Longrightarrow> addLogEntries logs s = s"
  unfolding addLogEntries_def
  by (induction logs arbitrary: s) (simp_all add: addLogEntry_absent)

lemma addLogEntries_ids_mono: "displayedLogIds s \<subseteq> displayedLogIds (addLogEntries logs s)"
  unfolding addLogEntries_def
proof (induction logs arbitrary: s)
  case Nil
  show ?case by simp
next
  case (Cons a logs)
  have "displayedLogIds s \<subseteq> displayedLogIds (addLogEntry a s)"
    by (auto simp add: addLogEntry_ids)
  also have "\<dots> \<subseteq> displayedLogIds (fold addLogEntry logs (addLogEntry a s))"
    by (rule Cons.IH)
  finally show ?case by simp
qed

lemma addLogEntries_novel_buffer:
  "logsEl s = Some el \<Longrightarrow> distinct (map logId logs) \<Longrightarrow>
   logId ` set logs \<inter> displayedLogIds s = {} \<Longrightarrow> logs \<noteq> [] \<Longrightarrow>
   displayBuffer (addLogEntries logs s) =
     evict (children el @ map (createEntry (toLocaleTimeString s)) logs)"
proof (induction logs arbitrary: s el)
  case Nil
  then show ?case by simp
next
  case (Cons a logs)
  let ?s1 = "addLogEntry a s"
  let ?f = "createEntry (toLocaleTimeString s)"
  from Cons.prems have novel: "logId a \<notin> displayedLogIds s" by auto
  have buf1: "displayBuffer ?s1 = evict (children el @ [?f a])"
    using Cons.prems(1) novel by (rule addLogEntry_novel_buffer)
  obtain el1 where el1: "logsEl ?s1 = Some el1"
    using Cons.prems(1) addLogEntry_logsEl_None[of a s] by (cases "logsEl ?s1") auto
  then have ch1: "children el1 = evict (children el @ [?f a])"
    using buf1 by (simp add: displayBuffer_def)
  show ?case
  proof (cases "logs = []")
    case True
    then show ?thesis using buf1 by (simp add: addLogEntries_def)
  next
    case False
    have d: "distinct (map logId logs)" using Cons.prems(2) by simp
    have n: "logId ` set logs \<inter> displayedLogIds ?s1 = {}"
      using Cons.prems(1,2,3) by (auto simp add: addLogEntry_ids)
    have "displayBuffer (addLogEntries logs ?s1) =
            evict (children el1 @ map (createEntry (toLocaleTimeString ?s1)) logs)"
      using el1 d n False by (rule Cons.IH)
    also have "\<dots> = evict (evict (children el @ [?f a]) @ map ?f logs)"
      by (simp add: ch1 addLogEntry_fmt)
    also have "\<dots> = evict ((children el @ [?f a]) @ map ?f logs)"
      by (rule evict_evict_append)
    finally show ?thesis by (simp add: addLogEntries_def)
  qed
qed

lemmas model_defs =
  freshPage_def pageLoaded_def moduleLoaded_def setInterval_def initWebSocket_def consoleWrite_def
  dispatch_def wsState_def setReadyState_def ws_onopen_def ws_onmessage_def ws_onclose_def
  ws_onerror_def setTimeout_def runCallback_def pollTick_def pollGuard_def pollSettled_def
  addLogEntries_def addLogEntry_def Let_def isAtBottom_def scrollHeight_def shouldScroll_def
  scrollToBottom_def createEntry_def displayBuffer_def plainContainer_def parseA_def eventA_def
  frameA_def logId_def numberToString_def substring_def toggleChanged_def addLogEntryRaw_def
  rawLogId_def rawEntry_def rawOf_def templateNumber_def templateString_def frameBare_def
  frameMute_def

lemma evict_short: "length cs \<le> 500 \<Longrightarrow> evict cs = cs"
  by (simp add: evict_drop)

lemma addLogEntry_jsonParse: "jsonParse (addLogEntry log s) = jsonParse s"
  by (auto simp add: addLogEntry_def Let_def split: option.splits)

text \<open>On a parsed frame that is a log event, the two embeddings of lines 135-163 agree.\<close>

lemma rawLogId_rawOf: "rawLogId (rawOf log) = Inr (logId log)"
  by (simp add: rawLogId_def rawOf_def logId_def templateNumber_def templateString_def)

lemma rawEntry_rawOf: "rawEntry fmt (rawOf log) = createEntry fmt log"
  by (simp add: rawEntry_def rawOf_def createEntry_def templateString_def)

lemma addLogEntryRaw_rawOf: "addLogEntryRaw (rawOf log) s = Inr (addLogEntry log s)"
  by (simp add: addLogEntryRaw_def addLogEntry_def rawLogId_rawOf rawEntry_rawOf Let_def
      split: option.splits)


lemma addLogEntryRaw_novel:
  assumes "logsEl s = Some el" and "rawLogId raw = Inr key" and "key \<notin> displayedLogIds s"
  shows "\<exists>s'. addLogEntryRaw raw s = Inr s'
    \<and> displayBuffer s' = evict (children el @ [rawEntry (toLocaleTimeString s) raw])
    \<and> displayedLogIds s' = insert key (displayedLogIds s)"
  using assms by (simp add: addLogEntryRaw_def displayBuffer_def Let_def scrollToBottom_def)

lemma addLogEntryRaw_frame:
  assumes "addLogEntryRaw raw s = Inr s'"
  shows "ws s' = ws s \<and> console s' = console s \<and> uncaught s' = uncaught s \<and> clock s' = clock s
    \<and> timeouts s' = timeouts s \<and> intervals s' = intervals s \<and> inflight s' = inflight s
    \<and> autoscrollEnabled s' = autoscrollEnabled s \<and> jsonParse s' = jsonParse s"
  using assms
  by (auto simp add: addLogEntryRaw_def Let_def split: option.splits sum.splits if_splits)


lemma addLogEntries_Nil: "addLogEntries [] s = s"
  by (simp add: addLogEntries_def)

lemma addLogEntries_Cons: "addLogEntries (e # es) s = addLogEntries es (addLogEntry e s)"
  by (simp add: addLogEntries_def)

lemma addLogEntry_idem: "addLogEntry log (addLogEntry log s) = addLogEntry log s"
proof (cases "logsEl s")
  case None
  then show ?thesis by (simp add: addLogEntry_absent)
next
  case (Some el)
  then have "logId log \<in> displayedLogIds (addLogEntry log s)"
    by (simp add: addLogEntry_ids)
  then show ?thesis by (rule addLogEntry_seen)
qed

lemma addLogEntry_ids_mono: "displayedLogIds s \<subseteq> displayedLogIds (addLogEntry log s)"
  by (auto simp add: addLogEntry_ids)

lemma addLogEntry_after_accept:
  assumes "logId b = logId a"
  shows "addLogEntry b (addLogEntries between (addLogEntry a s)) = addLogEntries between (addLogEntry a s)"
proof (cases "logsEl s")
  case None
  then show ?thesis by (simp add: addLogEntry_absent addLogEntries_absent)
next
  case (Some el)
  then have "logId a \<in> displayedLogIds (addLogEntry a s)"
    by (simp add: addLogEntry_ids)
  then have "logId b \<in> displayedLogIds (addLogEntries between (addLogEntry a s))"
    using addLogEntries_ids_mono[of "addLogEntry a s" between] assms by auto
  then show ?thesis by (rule addLogEntry_seen)
qed

subsection \<open>The scenario pages\<close>

lemma evict_drop_more:
  assumes "500 \<le> length ys"
  shows "evict (xs @ ys) = drop (length ys - 500) ys"
  using assms by (simp add: evict_drop)

lemma timestamp_numbered: "timestamp (numbered k) = 1000 + int k"
  by (simp add: numbered_def)

lemma increasing_numbered: "sorted_wrt (<) (map timestamp (map numbered [i..<j]))"
  by (simp add: sorted_wrt_map timestamp_numbered sorted_wrt_iff_nth_less)

lemma distinct_numbered: "distinct (map logId (map numbered [i..<j]))"
  by (rule increasing_distinct_logId) (rule increasing_numbered)

lemma logId_numbered_inj: "logId (numbered i) = logId (numbered j) \<Longrightarrow> i = j"
  using logId_timestamp[of "numbered i" "numbered j"] by (simp add: timestamp_numbered)

lemma freshPage_fields:
  "logsEl freshPage = Some plainContainer" "displayedLogIds freshPage = {}"
  "toLocaleTimeString freshPage = dayTime" "autoscrollEnabled freshPage = True"
  "jsonParse freshPage = parseA"
  by (simp_all add: model_defs)

lemma addLogEntry_novel_scrollTop:
  assumes "logsEl s = Some el" and "logId e \<notin> displayedLogIds s"
  shows "map_option scrollTop (logsEl (addLogEntry e s)) =
     Some (if shouldScroll (autoscrollEnabled s) (isAtBottom el) (children el = [])
           then scrollHeight (el\<lparr>children := children el @ [createEntry (toLocaleTimeString s) e]\<rparr>)
           else scrollTop el)"
  using assms by (simp add: addLogEntry_def Let_def scrollToBottom_def scrollHeight_def)

lemma laidOut_empty_atBottom:
  assumes "laidOut el" and "children el = []"
  shows "isAtBottom el"
  using assms by (simp add: laidOut_def isAtBottom_def scrollHeight_def)

lemma historyPage_fields:
  "logsEl (historyPage y) = Some (plainContainer\<lparr>children := map (createEntry dayTime \<circ> numbered) [0..<30], scrollTop := y\<rparr>)"
  "displayedLogIds (historyPage y) = logId ` numbered ` {0..<30}"
  "toLocaleTimeString (historyPage y) = dayTime" "autoscrollEnabled (historyPage y) = True"
  by (simp_all add: historyPage_def freshPage_fields)

lemma numbered_30_novel: "logId (numbered 30) \<notin> displayedLogIds (historyPage y)"
  by (auto simp add: historyPage_fields dest: logId_numbered_inj)

subsection \<open>The handlers and the event loop\<close>

lemma addLogEntry_frame:
  "ws (addLogEntry e s) = ws s" "console (addLogEntry e s) = console s"
  "uncaught (addLogEntry e s) = uncaught s" "clock (addLogEntry e s) = clock s"
  "timeouts (addLogEntry e s) = timeouts s" "intervals (addLogEntry e s) = intervals s"
  "inflight (addLogEntry e s) = inflight s" "autoscrollEnabled (addLogEntry e s) = autoscrollEnabled s"
  by (simp_all add: addLogEntry_def Let_def split: option.splits)

lemma addLogEntries_frame:
  "ws (addLogEntries logs s) = ws s \<and> console (addLogEntries logs s) = console s
   \<and> uncaught (addLogEntries logs s) = uncaught s \<and> clock (addLogEntries logs s) = clock s
   \<and> timeouts (addLogEntries logs s) = timeouts s \<and> intervals (addLogEntries logs s) = intervals s
   \<and> inflight (addLogEntries logs s) = inflight s
   \<and> autoscrollEnabled (addLogEntries logs s) = autoscrollEnabled s"
  by (induction logs arbitrary: s) (simp_all add: addLogEntries_Nil addLogEntries_Cons addLogEntry_frame)

lemma pollSettled_frame:
  "ws (pollSettled outcome s) = ws s" "uncaught (pollSettled outcome s) = uncaught s"
  "clock (pollSettled outcome s) = clock s" "timeouts (pollSettled outcome s) = timeouts s"
  "intervals (pollSettled outcome s) = intervals s" "inflight (pollSettled outcome s) = inflight s"
  by (simp_all add: pollSettled_def consoleWrite_def addLogEntries_frame
      split: fetch_outcome.splits fetch_body.splits option.splits)

lemma initWebSocket_frame:
  "intervals (initWebSocket thrown s) = intervals s" "timeouts (initWebSocket thrown s) = timeouts s"
  "clock (initWebSocket thrown s) = clock s" "inflight (initWebSocket thrown s) = inflight s"
  "logsEl (initWebSocket thrown s) = logsEl s" "displayedLogIds (initWebSocket thrown s) = displayedLogIds s"
  by (simp_all add: initWebSocket_def consoleWrite_def Let_def split: option.splits)

lemma pollTick_frame:
  "intervals (pollTick s) = intervals s" "timeouts (pollTick s) = timeouts s"
  "clock (pollTick s) = clock s" "ws (pollTick s) = ws s"
  "logsEl (pollTick s) = logsEl s" "displayedLogIds (pollTick s) = displayedLogIds s"
  "console (pollTick s) = console s"
  by (simp_all add: pollTick_def)

lemma runCallback_intervals: "intervals (runCallback cb thrown s) = intervals s"
  by (cases cb) (simp_all add: runCallback_def initWebSocket_frame pollTick_frame)

lemma runCallback_buffer: "displayBuffer (runCallback cb thrown s) = displayBuffer s"
  by (cases cb) (simp_all add: runCallback_def displayBuffer_def initWebSocket_frame pollTick_frame)

lemma toggleChanged_buffer: "displayBuffer (toggleChanged checked s) = displayBuffer s"
  by (simp add: toggleChanged_def displayBuffer_def Let_def scrollToBottom_def split: option.splits)

lemma displayBuffer_timers:
  "displayBuffer (s\<lparr>timeouts := ts\<rparr>) = displayBuffer s"
  "displayBuffer (s\<lparr>intervals := ivs\<rparr>) = displayBuffer s"
  by (simp_all add: displayBuffer_def)

lemma wsState_updates:
  "wsState (s\<lparr>clock := c\<rparr>) = wsState s" "wsState (s\<lparr>intervals := ivs\<rparr>) = wsState s"
  "wsState (s\<lparr>timeouts := ts\<rparr>) = wsState s" "wsState (s\<lparr>inflight := fs\<rparr>) = wsState s"
  "wsState (s\<lparr>uncaught := us\<rparr>) = wsState s" "wsState (s\<lparr>logsEl := el\<rparr>) = wsState s"
  by (simp_all add: wsState_def)

lemma addLogEntry_uncaught_update:
  "addLogEntry e (s\<lparr>uncaught := us\<rparr>) = (addLogEntry e s)\<lparr>uncaught := us\<rparr>"
  by (simp add: addLogEntry_def Let_def split: option.splits)

lemma dispatch_Elapse: "dispatch (Elapse d) s = Some (s\<lparr>clock := clock s + d\<rparr>)"
  by (simp add: dispatch_def)

lemma dispatch_intervals:
  assumes "dispatch ev s = Some s'"
  shows "map snd (intervals s') = map snd (intervals s)"
proof (cases ev)
  case (IntervalDue i)
  with assms obtain at period cb where i: "i < length (intervals s)"
    and at: "intervals s ! i = (at, period, cb)"
    and s': "s' = runCallback cb None (s\<lparr>intervals := (intervals s)[i := (at + period, period, cb)]\<rparr>)"
    by (auto simp add: dispatch_def split: if_splits prod.splits)
  have "map snd ((intervals s)[i := (at + period, period, cb)]) = (map snd (intervals s))[i := (period, cb)]"
    by (simp add: map_update)
  also have "\<dots> = map snd (intervals s)"
    using i at by (simp add: list_update_same_conv)
  finally show ?thesis by (simp add: s' runCallback_intervals)
next
  case (FetchSettled outcome)
  with assms show ?thesis
    by (auto simp add: dispatch_def pollSettled_frame split: list.splits)
next
  case (WsFrame frame)
  with assms show ?thesis
    by (auto simp add: dispatch_def ws_onmessage_def dest: addLogEntryRaw_frame
        split: if_splits option.splits sum.splits)
qed (use assms in \<open>auto simp add: dispatch_def runCallback_intervals ws_onopen_def ws_onerror_def
      ws_onclose_def setTimeout_def consoleWrite_def setReadyState_def toggleChanged_def Let_def
      split: if_splits option.splits\<close>)

lemma run_intervals:
  "run evs s = Some s' \<Longrightarrow> map snd (intervals s') = map snd (intervals s)"
proof (induction evs arbitrary: s)
  case Nil
  then show ?case by simp
next
  case (Cons ev evs)
  then obtain s1 where d: "dispatch ev s = Some s1" and r: "run evs s1 = Some s'"
    by (auto split: option.splits)
  from Cons.IH[OF r] dispatch_intervals[OF d] show ?case by simp
qed

lemma run_append:
  "run (evs @ evs') s = (case run evs s of None \<Rightarrow> None | Some s1 \<Rightarrow> run evs' s1)"
  by (induction evs arbitrary: s) (simp_all split: option.splits)

lemma ws_onclose_timeouts:
  "timeouts (ws_onclose reason s) = timeouts s @ [(clock s + 3000, InitWebSocket)]"
  by (simp add: ws_onclose_def setTimeout_def consoleWrite_def)

lemma dispatch_WsClosed:
  assumes "wsState s \<noteq> None" and "wsState s \<noteq> Some CLOSED"
  shows "dispatch (WsClosed reason) s = Some (ws_onclose reason (setReadyState CLOSED s))"
  using assms by (simp add: dispatch_def)

lemma close_fields:
  "timeouts (ws_onclose reason (setReadyState CLOSED s)) = timeouts s @ [(clock s + 3000, InitWebSocket)]"
  "clock (ws_onclose reason (setReadyState CLOSED s)) = clock s"
  by (simp_all add: ws_onclose_def setTimeout_def consoleWrite_def setReadyState_def)

lemma dispatch_TimeoutDue_due:
  assumes "dispatch (TimeoutDue i thrown) t = Some t'"
  shows "i < length (timeouts t) \<and> fst (timeouts t ! i) \<le> clock t
    \<and> t' = runCallback (snd (timeouts t ! i)) thrown
              (t\<lparr>timeouts := take i (timeouts t) @ drop (Suc i) (timeouts t)\<rparr>)"
  using assms by (auto simp add: dispatch_def split: if_splits)

lemma retry_cycle:
  assumes "wsState s \<noteq> None" and "wsState s \<noteq> Some CLOSED" and "timeouts s = []"
  shows "\<exists>s'. run [WsClosed reason, Elapse 3000, TimeoutDue 0 None] s = Some s'
     \<and> wsState s' = Some CONNECTING \<and> clock s' = clock s + 3000 \<and> timeouts s' = []"
  using assms
  by (simp add: dispatch_def ws_onclose_def setTimeout_def consoleWrite_def setReadyState_def
      runCallback_def initWebSocket_def wsState_def Let_def)

lemma retry_cycles:
  assumes "wsState s \<noteq> None" and "wsState s \<noteq> Some CLOSED" and "timeouts s = []"
  shows "\<exists>s'. run (retryCycles (Suc n)) s = Some s'
     \<and> wsState s' = Some CONNECTING \<and> clock s' = clock s + 3000 * Suc n \<and> timeouts s' = []"
  using assms
proof (induction n arbitrary: s)
  case 0
  from retry_cycle[OF 0, of "''lost''"] show ?case by simp
next
  case (Suc n)
  from retry_cycle[OF Suc.prems, of "''lost''"] obtain s1 where
    r1: "run [WsClosed ''lost'', Elapse 3000, TimeoutDue 0 None] s = Some s1"
    and w1: "wsState s1 = Some CONNECTING" and c1: "clock s1 = clock s + 3000" and t1: "timeouts s1 = []"
    by blast
  from w1 have a: "wsState s1 \<noteq> None" and b: "wsState s1 \<noteq> Some CLOSED" by simp_all
  from Suc.IH[OF a b t1] obtain s' where
    r: "run (retryCycles (Suc n)) s1 = Some s'" and w: "wsState s' = Some CONNECTING"
    and c: "clock s' = clock s1 + 3000 * Suc n" and t: "timeouts s' = []"
    by blast
  have "run (retryCycles (Suc (Suc n))) s = run (retryCycles (Suc n)) s1"
    using r1 run_append[of "[WsClosed ''lost'', Elapse 3000, TimeoutDue 0 None]" "retryCycles (Suc n)" s]
    by simp
  with r w c t c1 show ?case by simp
qed

lemma early_timer_refused:
  assumes "wsState s \<noteq> None" and "wsState s \<noteq> Some CLOSED" and "timeouts s = []" and "d < 3000"
  shows "run [WsClosed reason, Elapse d, TimeoutDue 0 thrown] s = None"
  using assms
  by (simp add: dispatch_def ws_onclose_def setTimeout_def consoleWrite_def setReadyState_def wsState_def)

lemma pollTick_open: "wsState s = Some OPEN \<Longrightarrow> pollTick s = s"
  by (auto simp add: pollTick_def pollGuard_def wsState_def split: option.splits)

lemma pollTick_not_open:
  "wsState s \<noteq> Some OPEN \<Longrightarrow> pollTick s = s\<lparr>inflight := inflight s @ [''/api/logs'']\<rparr>"
  by (auto simp add: pollTick_def pollGuard_def wsState_def split: option.splits)

lemma dispatch_IntervalDue:
  assumes "i < length (intervals s)" and "intervals s ! i = (at, period, cb)" and "at \<le> clock s"
  shows "dispatch (IntervalDue i) s
    = Some (runCallback cb None (s\<lparr>intervals := (intervals s)[i := (at + period, period, cb)]\<rparr>))"
  using assms by (simp add: dispatch_def)

lemma dispatch_buffer_open:
  assumes "wsState s = Some OPEN" and "inflight s = []" and "dispatch ev s = Some s'"
    and "displayBuffer s' \<noteq> displayBuffer s"
  shows "\<exists>frame. ev = WsFrame frame"
proof (cases ev)
  case (WsFrame frame)
  then show ?thesis by simp
next
  case (TimeoutDue i thrown)
  with assms show ?thesis
    by (auto simp add: dispatch_def runCallback_buffer displayBuffer_timers split: if_splits)
next
  case (IntervalDue i)
  with assms show ?thesis
    by (auto simp add: dispatch_def runCallback_buffer displayBuffer_timers split: if_splits prod.splits)
qed (use assms in \<open>auto simp add: dispatch_def displayBuffer_def ws_onopen_def ws_onerror_def
      ws_onclose_def setTimeout_def consoleWrite_def setReadyState_def wsState_def
      toggleChanged_def Let_def scrollToBottom_def split: if_splits option.splits\<close>)

lemma freshPage_transport:
  "wsState freshPage = Some CONNECTING" "timeouts freshPage = []" "clock freshPage = 0"
  "intervals freshPage = [(10000, 10000, FallbackPoll)]" "inflight freshPage = []"
  by (simp_all add: model_defs)

lemma openPage_fields:
  "wsState openPage = Some OPEN" "inflight openPage = []" "clock openPage = 0"
  "intervals openPage = [(10000, 10000, FallbackPoll)]" "timeouts openPage = []"
  "logsEl openPage = Some plainContainer" "displayedLogIds openPage = {}"
  "jsonParse openPage = parseA" "toLocaleTimeString openPage = dayTime"
  "uncaught openPage = []"
  "console openPage = [ConsoleLog [''[Dashboard] Connecting to WebSocket: ws://localhost:8080/ws/logs''],
                       ConsoleLog [''[Dashboard] WebSocket connected'']]"
  by (simp_all add: openPage_def model_defs)

lemma openPage_dispatch: "dispatch WsOpened freshPage = Some openPage"
  by (simp add: openPage_def dispatch_def freshPage_transport)

text \<open>
  What parses is not checked to be a log event: a frame with a message but neither
  timestamp nor level is rendered, with \<^verbatim>\<open>undefined\<close> in its key and its text.
\<close>

lemma message_only_frame_rendered:
  \<open>map_option displayBuffer (dispatch (WsFrame frameBare) openPage)
       = Some [\<lparr>className = ''log-entry log-undefined'',
                 innerHTML = ''<span class="log-time">Invalid Date</span> [undefined] x''\<rparr>]
   \<and> map_option displayedLogIds (dispatch (WsFrame frameBare) openPage)
       = Some {''undefined-undefined-x''}\<close>
  by (simp add: openPage_fields parseA_def frameA_def frameBare_def frameMute_def ws_onmessage_def
      dispatch_def addLogEntryRaw_def rawLogId_def rawEntry_def templateNumber_def
      templateString_def substring_def Let_def displayBuffer_def plainContainer_def
      shouldScroll_def scrollToBottom_def evict_short)

section \<open>The claims\<close>

subsection \<open>C1: duplicate suppression is idempotent\<close>

text \<open>
  C1. Accepting a log event a second time changes nothing: for every page \<open>s\<close> and every
  event \<open>e\<close>, \<^verbatim>\<open>addLogEntry(e); addLogEntry(e)\<close> leaves the page, and so the length of the
  display buffer, as \<^verbatim>\<open>addLogEntry(e)\<close> alone left it. That holds for a frame delivered twice
  on the push channel as for an event that the poll fetches after the channel has
  delivered it.
\<close>

theorem duplicate_suppression_idempotent:
  "addLogEntry e (addLogEntry e s) = addLogEntry e s
   \<and> length (displayBuffer (addLogEntry e (addLogEntry e s))) = length (displayBuffer (addLogEntry e s))
   \<and> (jsonParse s frame = Some (rawOf e) \<longrightarrow>
        ws_onmessage frame s = Inr (addLogEntry e s)
        \<and> ws_onmessage frame (addLogEntry e s) = Inr (addLogEntry e s)
        \<and> pollSettled (Response True (Payload (Some [e]))) (addLogEntry e s) = addLogEntry e s)"
proof (intro conjI impI)
  show idem: "addLogEntry e (addLogEntry e s) = addLogEntry e s"
    by (rule addLogEntry_idem)
  then show "length (displayBuffer (addLogEntry e (addLogEntry e s))) = length (displayBuffer (addLogEntry e s))"
    by simp
  show "pollSettled (Response True (Payload (Some [e]))) (addLogEntry e s) = addLogEntry e s"
    by (simp add: pollSettled_def addLogEntries_Cons addLogEntries_Nil idem)
  assume p: "jsonParse s frame = Some (rawOf e)"
  then show "ws_onmessage frame s = Inr (addLogEntry e s)"
    by (simp add: ws_onmessage_def addLogEntryRaw_rawOf)
  from p have "jsonParse (addLogEntry e s) frame = Some (rawOf e)"
    by (simp add: addLogEntry_jsonParse)
  then show "ws_onmessage frame (addLogEntry e s) = Inr (addLogEntry e s)"
    by (simp add: ws_onmessage_def addLogEntryRaw_rawOf idem)
qed

text \<open>
  The end-to-end scenario: the channel delivers event A and closes, the page reconnects
  three seconds later, and the poll tick at ten seconds fetches A again. The buffer
  holds one entry.
\<close>

theorem duplicate_suppression_scenario:
  "jsonParse freshPage frameA = Some (rawOf eventA)
   \<and> ws_onmessage frameA (addLogEntry eventA freshPage) = Inr (addLogEntry eventA freshPage)
   \<and> pollSettled (Response True (Payload (Some [eventA]))) (addLogEntry eventA freshPage) = addLogEntry eventA freshPage
   \<and> length (displayBuffer (addLogEntry eventA freshPage)) = 1
   \<and> length (displayBuffer (addLogEntry eventA (addLogEntry eventA freshPage))) = 1
   \<and> map_option (length \<circ> displayBuffer)
       (run [WsOpened, WsFrame frameA, WsClosed ''gone'', Elapse 3000, TimeoutDue 0 None, Elapse 7000,
             IntervalDue 0, FetchSettled (Response True (Payload (Some [eventA])))] freshPage) = Some 1"
proof -
  have p: "jsonParse freshPage frameA = Some (rawOf eventA)"
    by (simp add: freshPage_fields parseA_def)
  have one: "length (displayBuffer (addLogEntry eventA freshPage)) = 1"
    by (simp add: model_defs evict_short)
  have sc: "map_option (length \<circ> displayBuffer)
       (run [WsOpened, WsFrame frameA, WsClosed ''gone'', Elapse 3000, TimeoutDue 0 None, Elapse 7000,
             IntervalDue 0, FetchSettled (Response True (Payload (Some [eventA])))] freshPage) = Some 1"
    by (simp add: model_defs evict_short digits.simps)
  show ?thesis
    using duplicate_suppression_idempotent[of eventA freshPage frameA] p one sc by simp
qed

subsection \<open>C2: the display buffer is bounded and evicts the oldest\<close>

text \<open>
  C2. Let the container exist and let the events of a sequence be novel: their derived
  keys differ from one another and none is in the seen-set. Then after every accept of
  the sequence the display buffer holds at most 500 entries, and after the whole
  sequence it is the last 500 of the old entries followed by the new ones, in the order
  of arrival: what is evicted is a prefix, the oldest entries. In particular, after 501
  events with strictly increasing timestamps on an empty buffer, the buffer holds
  exactly 500 entries, those of the events 2 to 501; the entry of the first event, whose
  timestamp is the lowest, is the one that has gone.
\<close>

theorem buffer_bounded_fifo:
  assumes "logsEl s = Some el" and "distinct (map logId logs)"
    and "logId ` set logs \<inter> displayedLogIds s = {}"
  shows
   "(\<forall>n. 0 < n \<and> n \<le> length logs \<longrightarrow> length (displayBuffer (addLogEntries (take n logs) s)) \<le> 500)
    \<and> (logs \<noteq> [] \<longrightarrow>
         displayBuffer (addLogEntries logs s)
           = drop (length (children el) + length logs - 500)
               (children el @ map (createEntry (toLocaleTimeString s)) logs))
    \<and> (children el = [] \<and> length logs = 501 \<and> sorted_wrt (<) (map timestamp logs) \<longrightarrow>
         length (displayBuffer (addLogEntries logs s)) = 500
         \<and> displayBuffer (addLogEntries logs s) = map (createEntry (toLocaleTimeString s)) (tl logs)
         \<and> (\<forall>e \<in> set (tl logs). timestamp (hd logs) < timestamp e))"
proof -
  let ?f = "createEntry (toLocaleTimeString s)"
  have buf: "displayBuffer (addLogEntries ls s) = evict (children el @ map ?f ls)"
    if "ls \<noteq> []" and "distinct (map logId ls)" and "logId ` set ls \<inter> displayedLogIds s = {}" for ls
    using assms(1) that(2,3,1) by (rule addLogEntries_novel_buffer)
  have bound: "length (displayBuffer (addLogEntries (take n logs) s)) \<le> 500"
    if "0 < n \<and> n \<le> length logs" for n
  proof -
    have ne: "take n logs \<noteq> []" using that by (cases logs) auto
    have d: "distinct (map logId (take n logs))"
      using assms(2) by (simp add: take_map[symmetric] distinct_take del: take_map)
    have i: "logId ` set (take n logs) \<inter> displayedLogIds s = {}"
      using assms(3) set_take_subset[of n logs] by blast
    show ?thesis by (simp add: buf[OF ne d i] length_evict)
  qed
  have fifo: "displayBuffer (addLogEntries logs s)
           = drop (length (children el) + length logs - 500) (children el @ map ?f logs)"
    if "logs \<noteq> []"
    using buf[OF that assms(2,3)] by (simp add: evict_drop)
  have scen: "length (displayBuffer (addLogEntries logs s)) = 500
         \<and> displayBuffer (addLogEntries logs s) = map ?f (tl logs)
         \<and> (\<forall>e \<in> set (tl logs). timestamp (hd logs) < timestamp e)"
    if h: "children el = [] \<and> length logs = 501 \<and> sorted_wrt (<) (map timestamp logs)"
  proof -
    from h obtain a rest where logs: "logs = a # rest" and len: "length rest = 500"
      by (cases logs) auto
    have b: "displayBuffer (addLogEntries logs s) = map ?f rest"
      using fifo h logs len by simp
    have "\<forall>e \<in> set rest. timestamp a < timestamp e"
      using h logs by auto
    with b len logs show ?thesis by simp
  qed
  from bound fifo scen show ?thesis by blast
qed

text \<open>The scenario with 501 numbered events on the fresh page.\<close>

theorem buffer_after_501_events:
  "length (displayBuffer (addLogEntries (map numbered [0..<501]) freshPage)) = 500
   \<and> displayBuffer (addLogEntries (map numbered [0..<501]) freshPage)
       = map (createEntry dayTime) (map numbered [1..<501])
   \<and> length (displayBuffer (addLogEntries (map numbered [0..<500]) freshPage)) \<le> 500
   \<and> list_all (\<lambda>e. timestamp (numbered 0) < timestamp e) (map numbered [1..<501])"
proof -
  let ?logs = "map numbered [0..<501]"
  have a: "logsEl freshPage = Some plainContainer" by (simp add: freshPage_fields)
  have d: "distinct (map logId ?logs)" by (rule distinct_numbered)
  have i: "logId ` set ?logs \<inter> displayedLogIds freshPage = {}" by (simp add: freshPage_fields)
  note T = buffer_bounded_fifo[OF a d i]
  have h: "children plainContainer = [] \<and> length ?logs = 501 \<and> sorted_wrt (<) (map timestamp ?logs)"
    using increasing_numbered[of 0 501] by (simp add: plainContainer_def)
  have tl: "tl ?logs = map numbered [1..<501]"
    by (simp add: map_tl[symmetric] del: map_tl)
  have tk: "take 500 ?logs = map numbered [0..<500]"
    by (simp add: take_map take_upt)
  from T have "0 < (500::nat) \<and> 500 \<le> length ?logs \<longrightarrow> length (displayBuffer (addLogEntries (take 500 ?logs) freshPage)) \<le> 500"
    by blast
  then have b: "length (displayBuffer (addLogEntries (map numbered [0..<500]) freshPage)) \<le> 500"
    by (simp add: tk)
  from T h have "length (displayBuffer (addLogEntries ?logs freshPage)) = 500
         \<and> displayBuffer (addLogEntries ?logs freshPage) = map (createEntry (toLocaleTimeString freshPage)) (tl ?logs)
         \<and> (\<forall>e \<in> set (tl ?logs). timestamp (hd ?logs) < timestamp e)"
    by blast
  then show ?thesis using b by (simp add: tl freshPage_fields timestamp_numbered list_all_iff)
qed

subsection \<open>C3: events with the same derived key\<close>

text \<open>
  C3. Two log events with the same timestamp, the same level and the same first 50
  characters of the message have the same derived key, and the one that arrives second
  is discarded: the page, and with it the display buffer, stays as it was before it
  arrived, whatever the rest of the two messages is and whatever arrived in between.
\<close>

theorem key_collision_discards_second:
  assumes "timestamp a = timestamp b" and "level a = level b"
    and "take 50 (message a) = take 50 (message b)"
  shows "logId a = logId b
     \<and> addLogEntry b (addLogEntry a s) = addLogEntry a s
     \<and> addLogEntry b (addLogEntries between (addLogEntry a s)) = addLogEntries between (addLogEntry a s)"
proof -
  have k: "logId b = logId a"
    using assms by (simp add: logId_def substring_def)
  from addLogEntry_after_accept[OF k, of "[]" s] addLogEntry_after_accept[OF k, of between s] k
  show ?thesis by (simp add: addLogEntries_Nil)
qed

text \<open>Two reports of 62 and 64 characters that agree on the first 53.\<close>

theorem key_collision_reports:
  "message timeoutReport \<noteq> message forbiddenReport
   \<and> take 50 (message timeoutReport) = take 50 (message forbiddenReport)
   \<and> logId timeoutReport = logId forbiddenReport
   \<and> addLogEntry forbiddenReport (addLogEntry timeoutReport freshPage) = addLogEntry timeoutReport freshPage
   \<and> length (displayBuffer (addLogEntry timeoutReport freshPage)) = 1"
proof -
  have a: "timestamp timeoutReport = timestamp forbiddenReport"
    and b: "level timeoutReport = level forbiddenReport"
    and c: "take 50 (message timeoutReport) = take 50 (message forbiddenReport)"
    and d: "message timeoutReport \<noteq> message forbiddenReport"
    by (simp_all add: timeoutReport_def forbiddenReport_def)
  have one: "length (displayBuffer (addLogEntry timeoutReport freshPage)) = 1"
    by (simp add: model_defs evict_short)
  show ?thesis
    using key_collision_discards_second[OF a b c, of freshPage "[]"] c d one by simp
qed

subsection \<open>C4: the autoscroll decision\<close>

text \<open>
  C4. When a novel event is appended, the scroll offset afterwards is the scroll height
  that the container has after the append, if and only if autoscroll is enabled and
  the viewport was within 100 pixels of the bottom before the append or the container
  had no entry; otherwise the offset is the one from before. In particular, with
  autoscroll enabled, a viewport that is not near the bottom keeps its offset (a
  container that the browser has laid out is near the bottom whenever it is empty), and
  a viewport at or near the bottom is scrolled to the bottom. With autoscroll disabled
  the offset never changes.
\<close>

theorem autoscroll_decision:
  assumes "logsEl s = Some el" and "logId e \<notin> displayedLogIds s"
  shows
    "map_option scrollTop (logsEl (addLogEntry e s)) =
       Some (if autoscrollEnabled s \<and> (isAtBottom el \<or> children el = [])
             then scrollHeight (el\<lparr>children := children el @ [createEntry (toLocaleTimeString s) e]\<rparr>)
             else scrollTop el)
     \<and> (autoscrollEnabled s \<and> \<not> isAtBottom el \<and> laidOut el \<longrightarrow>
          map_option scrollTop (logsEl (addLogEntry e s)) = Some (scrollTop el))
     \<and> (autoscrollEnabled s \<and> isAtBottom el \<longrightarrow>
          map_option scrollTop (logsEl (addLogEntry e s)) =
            Some (scrollHeight (el\<lparr>children := children el @ [createEntry (toLocaleTimeString s) e]\<rparr>)))
     \<and> (\<not> autoscrollEnabled s \<longrightarrow>
          map_option scrollTop (logsEl (addLogEntry e s)) = Some (scrollTop el))"
proof -
  note st = addLogEntry_novel_scrollTop[OF assms]
  have "children el \<noteq> []" if "\<not> isAtBottom el" and "laidOut el"
    using that laidOut_empty_atBottom by blast
  then show ?thesis using st by (auto simp add: shouldScroll_def)
qed

text \<open>
  A page with 600 pixels of entries in a box of 300: at offset 0 the new entry leaves the
  viewport where it is, at offset 250 it moves it to the new scroll height 620, and not
  when autoscroll is off. The first entry of the fresh page scrolls.
\<close>

theorem autoscroll_reading_history:
  "\<not> isAtBottom (the (logsEl (historyPage 0))) \<and> laidOut (the (logsEl (historyPage 0)))
   \<and> map_option scrollTop (logsEl (addLogEntry (numbered 30) (historyPage 0))) = Some 0
   \<and> isAtBottom (the (logsEl (historyPage 250)))
   \<and> map_option scrollTop (logsEl (addLogEntry (numbered 30) (historyPage 250))) = Some 620
   \<and> map_option scrollTop (logsEl (addLogEntry (numbered 30) ((historyPage 250)\<lparr>autoscrollEnabled := False\<rparr>))) = Some 250
   \<and> map_option scrollTop (logsEl (addLogEntry eventA freshPage)) = Some 300"
proof -
  let ?up = "plainContainer\<lparr>children := map (createEntry dayTime \<circ> numbered) [0..<30], scrollTop := 0\<rparr>"
  let ?down = "plainContainer\<lparr>children := map (createEntry dayTime \<circ> numbered) [0..<30], scrollTop := 250\<rparr>"
  have up: "\<not> isAtBottom ?up" "laidOut ?up"
    and down: "isAtBottom ?down"
    by (simp_all add: isAtBottom_def laidOut_def scrollHeight_def plainContainer_def)
  have a: "map_option scrollTop (logsEl (addLogEntry (numbered 30) (historyPage 0))) = Some 0"
    using autoscroll_decision[OF historyPage_fields(1) numbered_30_novel, of 0] up
    by (simp add: historyPage_fields)
  have b: "map_option scrollTop (logsEl (addLogEntry (numbered 30) (historyPage 250))) = Some 620"
    using autoscroll_decision[OF historyPage_fields(1) numbered_30_novel, of 250] down
    by (simp add: historyPage_fields scrollHeight_def plainContainer_def)
  have off: "logsEl ((historyPage 250)\<lparr>autoscrollEnabled := False\<rparr>) = Some ?down"
    "logId (numbered 30) \<notin> displayedLogIds ((historyPage 250)\<lparr>autoscrollEnabled := False\<rparr>)"
    using numbered_30_novel[of 250] by (simp_all add: historyPage_fields)
  have c: "map_option scrollTop (logsEl (addLogEntry (numbered 30) ((historyPage 250)\<lparr>autoscrollEnabled := False\<rparr>))) = Some 250"
    using autoscroll_decision[OF off] by simp
  have fresh: "logsEl freshPage = Some plainContainer" "logId eventA \<notin> displayedLogIds freshPage"
    by (simp_all add: freshPage_fields)
  have d: "map_option scrollTop (logsEl (addLogEntry eventA freshPage)) = Some 300"
    using autoscroll_decision[OF fresh]
    by (simp add: freshPage_fields scrollHeight_def plainContainer_def)
  show ?thesis using up down a b c d by (simp add: historyPage_fields)
qed

subsection \<open>C5: the reconnect policy\<close>

text \<open>
  C5. Every close of the push channel, whatever its reason and whatever has happened
  before, registers one call of \<^verbatim>\<open>initWebSocket\<close> that is due 3000 milliseconds after the
  close: the delay is a constant of the handler, which keeps no count of the closes. The
  host runs the call no sooner than it is due, so the next connection attempt comes at
  least three seconds after the close, and a timer asked for earlier is refused. There
  is no last attempt: as long as the constructor returns a socket (it throws only for a
  URL that is not well formed, and the URL is fixed by the location of the page), any
  number of closes, each followed three seconds later by its timer, ends with a new
  socket that is connecting and no timer left over.
\<close>

theorem reconnect_fixed_backoff:
  "timeouts (ws_onclose reason s) = timeouts s @ [(clock s + 3000, InitWebSocket)]
   \<and> (wsState s \<noteq> None \<and> wsState s \<noteq> Some CLOSED \<longrightarrow>
        dispatch (WsClosed reason) s = Some (ws_onclose reason (setReadyState CLOSED s))
        \<and> timeouts (ws_onclose reason (setReadyState CLOSED s)) = timeouts s @ [(clock s + 3000, InitWebSocket)])
   \<and> (i < length (timeouts t) \<and> timeouts t ! i = (clock s + 3000, InitWebSocket)
        \<and> dispatch (TimeoutDue i thrown) t = Some t' \<longrightarrow>
        clock s + 3000 \<le> clock t
        \<and> t' = initWebSocket thrown (t\<lparr>timeouts := take i (timeouts t) @ drop (Suc i) (timeouts t)\<rparr>))
   \<and> (wsState s \<noteq> None \<and> wsState s \<noteq> Some CLOSED \<and> timeouts s = [] \<longrightarrow>
        (\<forall>d < 3000. run [WsClosed reason, Elapse d, TimeoutDue 0 thrown] s = None)
        \<and> (\<forall>n. \<exists>s'. run (retryCycles (Suc n)) s = Some s' \<and> wsState s' = Some CONNECTING
                 \<and> clock s' = clock s + 3000 * Suc n \<and> timeouts s' = []))"
proof (intro conjI impI allI)
  show "timeouts (ws_onclose reason s) = timeouts s @ [(clock s + 3000, InitWebSocket)]"
    by (rule ws_onclose_timeouts)
next
  assume "wsState s \<noteq> None \<and> wsState s \<noteq> Some CLOSED"
  then show "dispatch (WsClosed reason) s = Some (ws_onclose reason (setReadyState CLOSED s))"
    by (simp add: dispatch_WsClosed)
next
  show "timeouts (ws_onclose reason (setReadyState CLOSED s)) = timeouts s @ [(clock s + 3000, InitWebSocket)]"
    by (rule close_fields)
next
  assume h: "i < length (timeouts t) \<and> timeouts t ! i = (clock s + 3000, InitWebSocket)
        \<and> dispatch (TimeoutDue i thrown) t = Some t'"
  then have d: "dispatch (TimeoutDue i thrown) t = Some t'" by simp
  from dispatch_TimeoutDue_due[OF d] h show "clock s + 3000 \<le> clock t" by simp
  from dispatch_TimeoutDue_due[OF d] h
  show "t' = initWebSocket thrown (t\<lparr>timeouts := take i (timeouts t) @ drop (Suc i) (timeouts t)\<rparr>)"
    by (simp add: runCallback_def)
next
  fix d :: nat
  assume "wsState s \<noteq> None \<and> wsState s \<noteq> Some CLOSED \<and> timeouts s = []" and "d < 3000"
  then show "run [WsClosed reason, Elapse d, TimeoutDue 0 thrown] s = None"
    by (intro early_timer_refused) simp_all
next
  fix n
  assume "wsState s \<noteq> None \<and> wsState s \<noteq> Some CLOSED \<and> timeouts s = []"
  then show "\<exists>s'. run (retryCycles (Suc n)) s = Some s' \<and> wsState s' = Some CONNECTING
                 \<and> clock s' = clock s + 3000 * Suc n \<and> timeouts s' = []"
    by (intro retry_cycles) simp_all
qed

text \<open>
  The fresh page: its socket closes at time 0, the reconnect is due at 3000, is refused
  at 2999 and runs at 3000; three closes in a row end at 9000 with a socket that is
  connecting.
\<close>

theorem reconnect_after_three_seconds:
  "dispatch (WsClosed ''gone'') freshPage = Some (ws_onclose ''gone'' (setReadyState CLOSED freshPage))
   \<and> timeouts (ws_onclose ''gone'' (setReadyState CLOSED freshPage)) = [(3000, InitWebSocket)]
   \<and> run [WsClosed ''gone'', Elapse 2999, TimeoutDue 0 None] freshPage = None
   \<and> map_option (\<lambda>s. (wsState s, clock s, timeouts s)) (run [WsClosed ''gone'', Elapse 3000, TimeoutDue 0 None] freshPage)
       = Some (Some CONNECTING, 3000, [])
   \<and> (\<exists>s'. run (retryCycles 3) freshPage = Some s' \<and> wsState s' = Some CONNECTING \<and> clock s' = 9000 \<and> timeouts s' = [])"
proof -
  let ?t = "(ws_onclose ''gone'' (setReadyState CLOSED freshPage))\<lparr>clock := 3000\<rparr>"
  let ?t' = "initWebSocket None (?t\<lparr>timeouts := []\<rparr>)"
  note T = reconnect_fixed_backoff[of "''gone''" freshPage 0 ?t None ?t']
  have live: "wsState freshPage \<noteq> None \<and> wsState freshPage \<noteq> Some CLOSED \<and> timeouts freshPage = []"
    by (simp add: freshPage_transport)
  have due: "0 < length (timeouts ?t) \<and> timeouts ?t ! 0 = (clock freshPage + 3000, InitWebSocket)
        \<and> dispatch (TimeoutDue 0 None) ?t = Some ?t'"
    by (simp add: close_fields freshPage_transport dispatch_def runCallback_def)
  from T due have late: "clock freshPage + 3000 \<le> clock ?t" by blast
  from T live have a: "dispatch (WsClosed ''gone'') freshPage = Some (ws_onclose ''gone'' (setReadyState CLOSED freshPage))"
    and b: "timeouts (ws_onclose ''gone'' (setReadyState CLOSED freshPage)) = timeouts freshPage @ [(clock freshPage + 3000, InitWebSocket)]"
    and c: "\<forall>d<3000. run [WsClosed ''gone'', Elapse d, TimeoutDue 0 None] freshPage = None"
    and d: "\<forall>n. \<exists>s'. run (retryCycles (Suc n)) freshPage = Some s' \<and> wsState s' = Some CONNECTING
                 \<and> clock s' = clock freshPage + 3000 * Suc n \<and> timeouts s' = []"
    by blast+
  from c have c': "run [WsClosed ''gone'', Elapse 2999, TimeoutDue 0 None] freshPage = None" by simp
  from d have "\<exists>s'. run (retryCycles (Suc 2)) freshPage = Some s' \<and> wsState s' = Some CONNECTING
                 \<and> clock s' = clock freshPage + 3000 * Suc 2 \<and> timeouts s' = []" by blast
  then have d': "\<exists>s'. run (retryCycles 3) freshPage = Some s' \<and> wsState s' = Some CONNECTING \<and> clock s' = 9000 \<and> timeouts s' = []"
    by (simp add: freshPage_transport numeral_3_eq_3)
  have e: "map_option (\<lambda>s. (wsState s, clock s, timeouts s)) (run [WsClosed ''gone'', Elapse 3000, TimeoutDue 0 None] freshPage)
       = Some (Some CONNECTING, 3000, [])"
    using a late
    by (simp add: close_fields freshPage_transport dispatch_def runCallback_def initWebSocket_def
        consoleWrite_def wsState_def Let_def)
  from a b c' d' e show ?thesis by (simp add: freshPage_transport)
qed

subsection \<open>C6: a poll tick while the channel is open\<close>

text \<open>
  C6, as amended. The poll is registered once, when the module is evaluated, with a
  period of 10000 milliseconds, and no handler removes it or changes its period: after
  every run of the event loop it is still there. When it is due it runs, in every state
  of the channel, and is due again 10000 milliseconds later. A tick that finds the
  channel open is a no-op: the guard of line 104 fails, no fetch is issued and the page,
  with its display buffer, is unchanged; a tick that finds no open channel issues one
  fetch. A fetch that was issued before the channel opened is still forwarded when it
  settles, whatever the state of the channel is then. Apart from such a fetch, one
  source feeds at a time: while the channel is
  open and no fetch is in flight, no response can be delivered and the only event that
  changes the display buffer is a frame of the channel; while the channel is not open,
  no frame can be delivered.
\<close>

theorem poll_noop_while_open:
  "(wsState s = Some OPEN \<longrightarrow>
      pollTick s = s \<and> inflight (pollTick s) = inflight s \<and> displayBuffer (pollTick s) = displayBuffer s)
   \<and> (wsState s \<noteq> Some OPEN \<longrightarrow> pollTick s = s\<lparr>inflight := inflight s @ [''/api/logs'']\<rparr>)
   \<and> intervals (moduleLoaded container protocol host fmt parse) = [(10000, 10000, FallbackPoll)]
   \<and> (run evs (pageLoaded container protocol host fmt parse) = Some s' \<longrightarrow>
        map snd (intervals s') = [(10000, FallbackPoll)])
   \<and> (i < length (intervals s) \<and> intervals s ! i = (due, 10000, FallbackPoll) \<and> due \<le> clock s \<longrightarrow>
        dispatch (IntervalDue i) s
          = Some (pollTick (s\<lparr>intervals := (intervals s)[i := (due + 10000, 10000, FallbackPoll)]\<rparr>)))
   \<and> (wsState s = Some OPEN \<and> inflight s = [] \<longrightarrow>
        dispatch (FetchSettled outcome) s = None
        \<and> (dispatch ev s = Some t \<and> displayBuffer t \<noteq> displayBuffer s \<longrightarrow> (\<exists>frame. ev = WsFrame frame)))
   \<and> (wsState s \<noteq> Some OPEN \<longrightarrow> dispatch (WsFrame frame) s = None)
   \<and> (inflight s = req # rest \<longrightarrow>
        dispatch (FetchSettled (Response True (Payload (Some logs)))) s
          = Some (addLogEntries logs (s\<lparr>inflight := rest\<rparr>)))"
proof (intro conjI impI)
  assume o: "wsState s = Some OPEN"
  then show p: "pollTick s = s" by (rule pollTick_open)
  then show "inflight (pollTick s) = inflight s" and "displayBuffer (pollTick s) = displayBuffer s"
    by simp_all
next
  assume "wsState s \<noteq> Some OPEN"
  then show "pollTick s = s\<lparr>inflight := inflight s @ [''/api/logs'']\<rparr>"
    by (rule pollTick_not_open)
next
  show "intervals (moduleLoaded container protocol host fmt parse) = [(10000, 10000, FallbackPoll)]"
    by (simp add: moduleLoaded_def setInterval_def)
next
  assume "run evs (pageLoaded container protocol host fmt parse) = Some s'"
  from run_intervals[OF this]
  show "map snd (intervals s') = [(10000, FallbackPoll)]"
    by (simp add: pageLoaded_def moduleLoaded_def setInterval_def initWebSocket_frame)
next
  assume "i < length (intervals s) \<and> intervals s ! i = (due, 10000, FallbackPoll) \<and> due \<le> clock s"
  then show "dispatch (IntervalDue i) s
          = Some (pollTick (s\<lparr>intervals := (intervals s)[i := (due + 10000, 10000, FallbackPoll)]\<rparr>))"
    by (simp add: dispatch_IntervalDue runCallback_def)
next
  assume "wsState s = Some OPEN \<and> inflight s = []"
  then show "dispatch (FetchSettled outcome) s = None"
    by (simp add: dispatch_def)
next
  assume "wsState s = Some OPEN \<and> inflight s = []"
    and "dispatch ev s = Some t \<and> displayBuffer t \<noteq> displayBuffer s"
  then show "\<exists>frame. ev = WsFrame frame"
    using dispatch_buffer_open[of s ev t] by simp
next
  assume "wsState s \<noteq> Some OPEN"
  then show "dispatch (WsFrame frame) s = None"
    by (simp add: dispatch_def)
next
  assume "inflight s = req # rest"
  then show "dispatch (FetchSettled (Response True (Payload (Some logs)))) s
          = Some (addLogEntries logs (s\<lparr>inflight := rest\<rparr>))"
    by (simp add: dispatch_def pollSettled_def)
qed

text \<open>
  The fresh page with its socket open: the tick at ten seconds changes nothing but the
  time the poll is next due at, and a fetch that is in flight all the same is forwarded
  when it settles. With the socket still connecting, the tick issues the fetch and no
  frame can arrive.
\<close>

theorem poll_tick_on_open_page:
  "wsState openPage = Some OPEN \<and> pollTick openPage = openPage
   \<and> dispatch (IntervalDue 0) (openPage\<lparr>clock := 10000\<rparr>)
       = Some (openPage\<lparr>clock := 10000, intervals := [(20000, 10000, FallbackPoll)]\<rparr>)
   \<and> dispatch (FetchSettled (Response True (Payload (Some [eventA])))) openPage = None
   \<and> displayBuffer (addLogEntry eventA openPage) \<noteq> displayBuffer openPage
   \<and> dispatch (WsFrame frameA) openPage = Some (addLogEntry eventA openPage)
   \<and> wsState freshPage = Some CONNECTING
   \<and> pollTick freshPage = freshPage\<lparr>inflight := [''/api/logs'']\<rparr>
   \<and> dispatch (WsFrame frameA) freshPage = None
   \<and> map_option intervals (run [WsOpened, Elapse 10000, IntervalDue 0] freshPage)
       = Some [(20000, 10000, FallbackPoll)]
   \<and> dispatch (FetchSettled (Response True (Payload (Some [eventA]))))
         (openPage\<lparr>inflight := [''/api/logs'']\<rparr>)
       = Some (addLogEntries [eventA] (openPage\<lparr>inflight := []\<rparr>))"
proof -
  let ?s = "openPage\<lparr>clock := 10000\<rparr>"
  let ?u = "openPage\<lparr>inflight := [''/api/logs'']\<rparr>"
  let ?s' = "openPage\<lparr>clock := 10000, intervals := [(20000, 10000, FallbackPoll)]\<rparr>"
  have o: "wsState openPage = Some OPEN" and o': "wsState ?s = Some OPEN"
    by (simp_all add: openPage_fields wsState_updates)
  have c: "wsState freshPage \<noteq> Some OPEN" by (simp add: freshPage_transport)
  have f: "dispatch (WsFrame frameA) openPage = Some (addLogEntry eventA openPage)"
    by (simp add: dispatch_def openPage_fields ws_onmessage_def parseA_def addLogEntryRaw_rawOf)
  have b: "displayBuffer (addLogEntry eventA openPage) \<noteq> displayBuffer openPage"
    using addLogEntry_novel_buffer[of openPage plainContainer eventA]
    by (simp add: openPage_fields displayBuffer_def plainContainer_def evict_short)
  have pt: "pollTick ?s = ?s" using o' by (rule pollTick_open)
  have d0: "dispatch (IntervalDue 0) ?s = Some ?s'"
    by (simp add: dispatch_def openPage_fields runCallback_def pollTick_open wsState_updates)
  have r: "run [WsOpened, Elapse 10000, IntervalDue 0] freshPage = Some ?s'"
    by (simp add: openPage_dispatch dispatch_Elapse openPage_fields d0)
  note T1 = poll_noop_while_open[of openPage "Some plainContainer" "''http:''" "''localhost:8080''"
      dayTime parseA "[WsOpened, Elapse 10000, IntervalDue 0]" ?s' 0 10000
      "Response True (Payload (Some [eventA]))" "WsFrame frameA" "addLogEntry eventA openPage" frameA]
  note T2 = poll_noop_while_open[of ?s "Some plainContainer" "''http:''" "''localhost:8080''"
      dayTime parseA "[]" freshPage 0 10000 Rejected "Elapse 0" ?s frameA]
  note T3 = poll_noop_while_open[of freshPage "Some plainContainer" "''http:''" "''localhost:8080''"
      dayTime parseA "[]" freshPage 0 10000 Rejected "Elapse 0" freshPage frameA]
  from T1 o have p: "pollTick openPage = openPage" by blast
  from T1 r have iv: "map snd (intervals ?s') = [(10000, FallbackPoll)]"
    by (simp add: freshPage_def)
  from T1 o have fs: "dispatch (FetchSettled (Response True (Payload (Some [eventA])))) openPage = None"
    by (simp add: openPage_fields)
  from T1 o f b have "\<exists>frame. WsFrame frameA = WsFrame frame"
    by (simp add: openPage_fields)
  have "0 < length (intervals ?s) \<and> intervals ?s ! 0 = (10000, 10000, FallbackPoll) \<and> 10000 \<le> clock ?s"
    by (simp add: openPage_fields)
  with T2 have "dispatch (IntervalDue 0) ?s
      = Some (pollTick (?s\<lparr>intervals := (intervals ?s)[0 := (10000 + 10000, 10000, FallbackPoll)]\<rparr>))"
    by blast
  moreover from T2 o' have "pollTick ?s = ?s" by blast
  ultimately have d: "dispatch (IntervalDue 0) ?s = Some ?s'"
    by (simp add: openPage_fields pollTick_open wsState_updates)
  from T3 c have q: "pollTick freshPage = freshPage\<lparr>inflight := inflight freshPage @ [''/api/logs'']\<rparr>"
    and n: "dispatch (WsFrame frameA) freshPage = None"
    by blast+
  note T4 = poll_noop_while_open[of ?u "Some plainContainer" "''http:''" "''localhost:8080''"
      dayTime parseA "[]" freshPage 0 10000 Rejected "Elapse 0" ?u frameA "''/api/logs''" "[]"
      "[eventA]"]
  have "inflight ?u = ''/api/logs'' # []" by simp
  with T4 have w: "dispatch (FetchSettled (Response True (Payload (Some [eventA])))) ?u
      = Some (addLogEntries [eventA] (?u\<lparr>inflight := []\<rparr>))"
    by blast
  from o p d fs b f q n r w show ?thesis
    by (simp add: freshPage_transport)
qed

text \<open>
  Against C6 as it was stated (at most one source feeds at any time): the tick at ten
  seconds finds the socket connecting and issues its fetch; the socket opens and
  delivers event A; then the fetch settles and its event is appended as a second entry,
  while the channel is open.
\<close>

theorem poll_response_while_open:
  "map_option (\<lambda>s. (wsState s, length (displayBuffer s), inflight s))
      (run [Elapse 10000, IntervalDue 0, WsOpened, WsFrame frameA] freshPage)
     = Some (Some OPEN, 1, [''/api/logs''])
   \<and> map_option (\<lambda>s. (wsState s, length (displayBuffer s), inflight s))
      (run [Elapse 10000, IntervalDue 0, WsOpened, WsFrame frameA,
            FetchSettled (Response True (Payload (Some [numbered 1])))] freshPage)
     = Some (Some OPEN, 2, [])"
  by (simp add: model_defs evict_short numbered_def digits.simps)

subsection \<open>C7: a frame that does not parse\<close>



subsection \<open>C8: a poll whose fetch fails\<close>

text \<open>
  C8, as amended. When the fetch of a poll tick fails, the tick ends without a retry
  and without an exception: no further fetch is issued, no timer is registered, no
  entry is appended, and the container, the display buffer and the seen-set are
  unchanged. A network error is written to the console with \<^verbatim>\<open>console.error\<close> (line
  114) and changes nothing else; a response whose status is not a success is skipped in
  silence (line 107 has no \<^verbatim>\<open>else\<close>) and leaves the whole page as it was.
\<close>

theorem poll_failure_skips_tick:
  "pollSettled Rejected s = consoleWrite (ConsoleError ''[Dashboard] Polling failed'' TypeError) s
   \<and> pollSettled (Response False body) s = s
   \<and> (outcome = Rejected \<or> outcome = Response False body \<longrightarrow>
        logsEl (pollSettled outcome s) = logsEl s
        \<and> displayBuffer (pollSettled outcome s) = displayBuffer s
        \<and> displayedLogIds (pollSettled outcome s) = displayedLogIds s
        \<and> inflight (pollSettled outcome s) = inflight s
        \<and> timeouts (pollSettled outcome s) = timeouts s
        \<and> intervals (pollSettled outcome s) = intervals s
        \<and> uncaught (pollSettled outcome s) = uncaught s
        \<and> (inflight s = req # rest \<longrightarrow>
             dispatch (FetchSettled outcome) s = Some (pollSettled outcome (s\<lparr>inflight := rest\<rparr>))
             \<and> inflight (pollSettled outcome (s\<lparr>inflight := rest\<rparr>)) = rest))"
  by (auto simp add: pollSettled_def consoleWrite_def displayBuffer_def dispatch_def)

text \<open>
  The tick of the fresh page at ten seconds, with the fetch rejected and with a
  response that is not a success: one line on the console in the first case, none in
  the second, and no entry, key or fetch in flight in either.
\<close>

theorem poll_failures_on_fresh_page:
  "map_option (\<lambda>s. (console s, displayBuffer s, displayedLogIds s, inflight s, uncaught s))
      (run [Elapse 10000, IntervalDue 0, FetchSettled Rejected] freshPage)
     = Some ([ConsoleLog [''[Dashboard] Connecting to WebSocket: ws://localhost:8080/ws/logs''],
              ConsoleError ''[Dashboard] Polling failed'' TypeError], [], {}, [], [])
   \<and> map_option (\<lambda>s. (console s, displayBuffer s, displayedLogIds s, inflight s, uncaught s))
      (run [Elapse 10000, IntervalDue 0, FetchSettled (Response False (Payload (Some [eventA])))] freshPage)
     = Some ([ConsoleLog [''[Dashboard] Connecting to WebSocket: ws://localhost:8080/ws/logs'']], [], {}, [], [])"
proof -
  let ?s = "freshPage\<lparr>clock := 10000, intervals := [(20000, 10000, FallbackPoll)], inflight := [''/api/logs'']\<rparr>"
  let ?r = "freshPage\<lparr>clock := 10000, intervals := [(20000, 10000, FallbackPoll)], inflight := []\<rparr>"
  have tick: "run [Elapse 10000, IntervalDue 0] freshPage = Some ?s"
    by (simp add: dispatch_def freshPage_transport runCallback_def pollTick_not_open wsState_updates)
  have fl: "inflight ?s = ''/api/logs'' # []" by simp
  note T1 = poll_failure_skips_tick[of ?s "Payload (Some [eventA])" Rejected "''/api/logs''" "[]"]
  note T2 = poll_failure_skips_tick[of ?s "Payload (Some [eventA])" "Response False (Payload (Some [eventA]))" "''/api/logs''" "[]"]
  from T1 fl have d1: "dispatch (FetchSettled Rejected) ?s = Some (pollSettled Rejected ?r)"
    by simp
  from T2 fl have d2: "dispatch (FetchSettled (Response False (Payload (Some [eventA])))) ?s
      = Some (pollSettled (Response False (Payload (Some [eventA]))) ?r)"
    by simp
  from poll_failure_skips_tick[of ?r "Payload (Some [eventA])"]
  have p1: "pollSettled Rejected ?r = consoleWrite (ConsoleError ''[Dashboard] Polling failed'' TypeError) ?r"
    and p2: "pollSettled (Response False (Payload (Some [eventA]))) ?r = ?r"
    by blast+
  have r1: "run [Elapse 10000, IntervalDue 0, FetchSettled Rejected] freshPage
      = Some (consoleWrite (ConsoleError ''[Dashboard] Polling failed'' TypeError) ?r)"
  proof -
    have "run ([Elapse 10000, IntervalDue 0] @ [FetchSettled Rejected]) freshPage
        = run [FetchSettled Rejected] ?s"
      by (simp only: run_append tick option.case)
    then show ?thesis by (simp add: d1 p1)
  qed
  have r2: "run [Elapse 10000, IntervalDue 0, FetchSettled (Response False (Payload (Some [eventA])))] freshPage
      = Some ?r"
  proof -
    have "run ([Elapse 10000, IntervalDue 0] @ [FetchSettled (Response False (Payload (Some [eventA])))]) freshPage
        = run [FetchSettled (Response False (Payload (Some [eventA])))] ?s"
      by (simp only: run_append tick option.case)
    then show ?thesis by (simp add: d2 p2)
  qed
  show ?thesis
    by (simp only: r1 r2) (simp add: consoleWrite_def displayBuffer_def model_defs)
qed

text \<open>
  Against C8 as it was stated (a response that is not a success is logged): the console
  after such a response is the console before it.
\<close>

theorem poll_failure_not_logged:
  "console (pollSettled (Response False InvalidJson) freshPage) = console freshPage
   \<and> pollSettled (Response False (Payload (Some [eventA]))) freshPage = freshPage"
  by (simp add: pollSettled_def)

subsection \<open>C9: the seen-set outlives eviction\<close>

text \<open>
  C9. No accept removes a key from the seen-set: it only grows, also when the accept
  evicts entries. So when an event has been accepted and 500 or more novel events after
  it have pushed its entry out of the display buffer, its key is still in the seen-set,
  and the event, delivered again, is discarded: the page, and the length of the buffer
  with it, stays as it is.
\<close>

theorem seen_set_outlives_eviction:
  "displayedLogIds s \<subseteq> displayedLogIds (addLogEntry e s)
   \<and> displayedLogIds s \<subseteq> displayedLogIds (addLogEntries logs s)
   \<and> (logsEl s = Some el \<and> logId e \<notin> displayedLogIds s \<and> distinct (map logId logs)
        \<and> logId ` set logs \<inter> insert (logId e) (displayedLogIds s) = {} \<and> 500 \<le> length logs
      \<longrightarrow> displayBuffer (addLogEntries logs (addLogEntry e s))
            = map (createEntry (toLocaleTimeString s)) (drop (length logs - 500) logs)
          \<and> logId e \<in> displayedLogIds (addLogEntries logs (addLogEntry e s))
          \<and> addLogEntry e (addLogEntries logs (addLogEntry e s)) = addLogEntries logs (addLogEntry e s))"
proof (intro conjI impI)
  show "displayedLogIds s \<subseteq> displayedLogIds (addLogEntry e s)"
    by (rule addLogEntry_ids_mono)
  show "displayedLogIds s \<subseteq> displayedLogIds (addLogEntries logs s)"
    by (rule addLogEntries_ids_mono)
next
  assume h: "logsEl s = Some el \<and> logId e \<notin> displayedLogIds s \<and> distinct (map logId logs)
        \<and> logId ` set logs \<inter> insert (logId e) (displayedLogIds s) = {} \<and> 500 \<le> length logs"
  let ?f = "createEntry (toLocaleTimeString s)"
  from h have el: "logsEl s = Some el" and d: "distinct (map logId (e # logs))"
    and n: "logId ` set (e # logs) \<inter> displayedLogIds s = {}" and len: "500 \<le> length logs"
    by auto
  have "displayBuffer (addLogEntries (e # logs) s) = evict (children el @ map ?f (e # logs))"
    using el d n by (rule addLogEntries_novel_buffer) simp
  also have "\<dots> = evict ((children el @ [?f e]) @ map ?f logs)" by simp
  also have "\<dots> = drop (length (map ?f logs) - 500) (map ?f logs)"
    using len by (intro evict_drop_more) simp
  also have "\<dots> = map ?f (drop (length logs - 500) logs)"
    by (simp add: drop_map)
  finally show "displayBuffer (addLogEntries logs (addLogEntry e s)) = map ?f (drop (length logs - 500) logs)"
    by (simp add: addLogEntries_Cons)
  have "logId e \<in> displayedLogIds (addLogEntry e s)"
    using el by (simp add: addLogEntry_ids)
  then show "logId e \<in> displayedLogIds (addLogEntries logs (addLogEntry e s))"
    using addLogEntries_ids_mono[of "addLogEntry e s" logs] by auto
  show "addLogEntry e (addLogEntries logs (addLogEntry e s)) = addLogEntries logs (addLogEntry e s)"
    by (rule addLogEntry_after_accept) simp
qed

text \<open>Event 0 on the fresh page, then the events 1 to 500, then event 0 again.\<close>

theorem seen_set_after_500_more:
  "displayBuffer (addLogEntries (map numbered [1..<501]) (addLogEntry (numbered 0) freshPage))
     = map (createEntry dayTime) (map numbered [1..<501])
   \<and> logId (numbered 0) \<in> displayedLogIds (addLogEntries (map numbered [1..<501]) (addLogEntry (numbered 0) freshPage))
   \<and> addLogEntry (numbered 0) (addLogEntries (map numbered [1..<501]) (addLogEntry (numbered 0) freshPage))
       = addLogEntries (map numbered [1..<501]) (addLogEntry (numbered 0) freshPage)
   \<and> displayBuffer (addLogEntry (numbered 0) freshPage) = [createEntry dayTime (numbered 0)]"
proof -
  let ?logs = "map numbered [1..<501]"
  have h: "logsEl freshPage = Some plainContainer \<and> logId (numbered 0) \<notin> displayedLogIds freshPage
        \<and> distinct (map logId ?logs)
        \<and> logId ` set ?logs \<inter> insert (logId (numbered 0)) (displayedLogIds freshPage) = {}
        \<and> 500 \<le> length ?logs"
  proof (intro conjI)
    show "distinct (map logId ?logs)" by (rule distinct_numbered)
    show "logId ` set ?logs \<inter> insert (logId (numbered 0)) (displayedLogIds freshPage) = {}"
      by (auto simp add: freshPage_fields dest: logId_numbered_inj)
  qed (simp_all add: freshPage_fields)
  have one: "displayBuffer (addLogEntry (numbered 0) freshPage) = [createEntry dayTime (numbered 0)]"
    using addLogEntry_novel_buffer[of freshPage plainContainer "numbered 0"]
    by (simp add: freshPage_fields evict_short plainContainer_def)
  show ?thesis
    using seen_set_outlives_eviction[of freshPage "numbered 0" ?logs plainContainer] h one
    by (simp add: freshPage_fields)
qed

subsection \<open>C10: an event that arrives while the container is absent\<close>

text \<open>
  C10. When \<^verbatim>\<open>document.getElementById('logs')\<close> returns \<^verbatim>\<open>null\<close>, \<^verbatim>\<open>addLogEntry\<close> returns at once
  and the page is unchanged: the event is not rendered and its key is not recorded. So
  an event that was not in the seen-set is still novel when it is delivered again with
  the container in place: its key is recorded and its entry is the last one of the
  display buffer.
\<close>

theorem absent_container_drops_unrecorded:
  assumes "logsEl s = None"
  shows "addLogEntry e s = s
     \<and> (logId e \<notin> displayedLogIds s \<longrightarrow>
          logId e \<in> displayedLogIds (addLogEntry e ((addLogEntry e s)\<lparr>logsEl := Some el\<rparr>))
          \<and> displayBuffer (addLogEntry e ((addLogEntry e s)\<lparr>logsEl := Some el\<rparr>))
              = evict (children el @ [createEntry (toLocaleTimeString s) e])
          \<and> last (displayBuffer (addLogEntry e ((addLogEntry e s)\<lparr>logsEl := Some el\<rparr>)))
              = createEntry (toLocaleTimeString s) e
          \<and> length (displayBuffer (addLogEntry e ((addLogEntry e s)\<lparr>logsEl := Some el\<rparr>)))
              = min 500 (Suc (length (children el))))"
proof (intro conjI impI)
  show same: "addLogEntry e s = s"
    using assms by (rule addLogEntry_absent)
  assume novel: "logId e \<notin> displayedLogIds s"
  let ?s = "s\<lparr>logsEl := Some el\<rparr>"
  have el: "logsEl ?s = Some el" and n: "logId e \<notin> displayedLogIds ?s" using novel by simp_all
  show "logId e \<in> displayedLogIds (addLogEntry e ((addLogEntry e s)\<lparr>logsEl := Some el\<rparr>))"
    by (simp add: same addLogEntry_ids)
  have buf: "displayBuffer (addLogEntry e ?s) = evict (children el @ [createEntry (toLocaleTimeString s) e])"
    using addLogEntry_novel_buffer[OF el n] by simp
  then show "displayBuffer (addLogEntry e ((addLogEntry e s)\<lparr>logsEl := Some el\<rparr>))
              = evict (children el @ [createEntry (toLocaleTimeString s) e])"
    by (simp add: same)
  show "last (displayBuffer (addLogEntry e ((addLogEntry e s)\<lparr>logsEl := Some el\<rparr>)))
              = createEntry (toLocaleTimeString s) e"
    by (simp add: same buf evict_drop)
  show "length (displayBuffer (addLogEntry e ((addLogEntry e s)\<lparr>logsEl := Some el\<rparr>)))
              = min 500 (Suc (length (children el)))"
    by (simp add: same buf length_evict)
qed

text \<open>Event A on the fresh page without its container, and again with it.\<close>

theorem absent_container_then_mounted:
  "logsEl (freshPage\<lparr>logsEl := None\<rparr>) = None
   \<and> logId eventA \<notin> displayedLogIds (freshPage\<lparr>logsEl := None\<rparr>)
   \<and> addLogEntry eventA (freshPage\<lparr>logsEl := None\<rparr>) = freshPage\<lparr>logsEl := None\<rparr>
   \<and> displayBuffer (addLogEntry eventA ((addLogEntry eventA (freshPage\<lparr>logsEl := None\<rparr>))\<lparr>logsEl := Some plainContainer\<rparr>))
       = [createEntry dayTime eventA]"
proof -
  let ?s = "freshPage\<lparr>logsEl := None\<rparr>"
  have a: "logsEl ?s = None" by simp
  have n: "logId eventA \<notin> displayedLogIds ?s" by (simp add: freshPage_fields)
  note T = absent_container_drops_unrecorded[OF a, of eventA plainContainer]
  from T have same: "addLogEntry eventA ?s = ?s" by (rule conjunct1)
  from T n have "displayBuffer (addLogEntry eventA ((addLogEntry eventA ?s)\<lparr>logsEl := Some plainContainer\<rparr>))
      = evict (children plainContainer @ [createEntry (toLocaleTimeString ?s) eventA])"
    by blast
  also have "\<dots> = [createEntry dayTime eventA]"
    by (simp add: freshPage_fields evict_short plainContainer_def)
  finally show ?thesis using a n same by blast
qed

end
